theory Spec2Isabelle
  imports Complex_Main "HOL-Library.Multiset"
begin

section \<open>Python values\<close>

text \<open>
  The worker of \<^verbatim>\<open>bench.py\<close> handles values decoded from JSON and stores them,
  unchecked, in the fields of its result. A decoded value is therefore modelled with
  its dynamic type. \<^verbatim>\<open>json.loads\<close> yields \<^verbatim>\<open>None\<close>, \<^verbatim>\<open>bool\<close>,
  \<^verbatim>\<open>int\<close>, \<^verbatim>\<open>float\<close>, \<^verbatim>\<open>str\<close>, \<^verbatim>\<open>list\<close> and \<^verbatim>\<open>dict\<close>; a dict is an
  association list read with \<open>map_of\<close>. A Python float is modelled by the real number
  it denotes: infinities, NaN and overflow are outside the model. A \<open>char\<close> stands for
  one code point of a Python \<^verbatim>\<open>str\<close>.
\<close>

datatype json =
    JNull
  | JBool bool
  | JInt int
  | JFloat real
  | JStr string
  | JArr "json list"
  | JObj "(string \<times> json) list"

text \<open>
  Exceptions of class \<^verbatim>\<open>Exception\<close>, each with the text that \<^verbatim>\<open>str(e)\<close> gives.
  \<open>TransportError\<close> stands for whatever the HTTP client raises (timeout, connection
  reset, a body that is not JSON). What is not an \<^verbatim>\<open>Exception\<close>, the cancellation
  of the task or an interrupt from the keyboard, is no failure of a request and is not
  modelled.
\<close>

datatype exn =
    TransportError string
  | AttributeError string
  | IndexError string
  | KeyError string
  | TypeError string
  | ValueError string
  | ZeroDivisionError string

fun str_exn :: "exn \<Rightarrow> string" where
  "str_exn (TransportError m) = m"
| "str_exn (AttributeError m) = m"
| "str_exn (IndexError m) = m"
| "str_exn (KeyError m) = m"
| "str_exn (TypeError m) = m"
| "str_exn (ValueError m) = m"
| "str_exn (ZeroDivisionError m) = m"

fun type_name :: "json \<Rightarrow> string" where
  "type_name JNull = ''NoneType''"
| "type_name (JBool _) = ''bool''"
| "type_name (JInt _) = ''int''"
| "type_name (JFloat _) = ''float''"
| "type_name (JStr _) = ''str''"
| "type_name (JArr _) = ''list''"
| "type_name (JObj _) = ''dict''"

definition quoted :: "string \<Rightarrow> string" where
  "quoted s = [CHR 0x27] @ s @ [CHR 0x27]"

text \<open>Truth value of a Python object, as \<^verbatim>\<open>if x:\<close> and \<^verbatim>\<open>x or y\<close> test it.\<close>

fun truthy :: "json \<Rightarrow> bool" where
  "truthy JNull = False"
| "truthy (JBool b) = b"
| "truthy (JInt n) = (n \<noteq> 0)"
| "truthy (JFloat x) = (x \<noteq> 0)"
| "truthy (JStr s) = (s \<noteq> [])"
| "truthy (JArr xs) = (xs \<noteq> [])"
| "truthy (JObj kvs) = (kvs \<noteq> [])"

text \<open>\<^verbatim>\<open>d.get(key, default)\<close>: only a dict has the method.\<close>

fun dict_get :: "json \<Rightarrow> string \<Rightarrow> json \<Rightarrow> exn + json" where
  "dict_get (JObj kvs) k dflt = Inr (case map_of kvs k of None \<Rightarrow> dflt | Some v \<Rightarrow> v)"
| "dict_get v k dflt =
     Inl (AttributeError (quoted (type_name v) @ '' object has no attribute '' @ quoted ''get''))"

text \<open>
  \<^verbatim>\<open>x[0]\<close>. The keys of a decoded dict are strings, so the integer key \<^verbatim>\<open>0\<close> is
  never present.
\<close>

fun subscript0 :: "json \<Rightarrow> exn + json" where
  "subscript0 (JArr []) = Inl (IndexError ''list index out of range'')"
| "subscript0 (JArr (x # xs)) = Inr x"
| "subscript0 (JStr []) = Inl (IndexError ''string index out of range'')"
| "subscript0 (JStr (c # cs)) = Inr (JStr [c])"
| "subscript0 (JObj kvs) = Inl (KeyError ''0'')"
| "subscript0 v = Inl (TypeError (quoted (type_name v) @ '' object is not subscriptable''))"

text \<open>\<^verbatim>\<open>s += x\<close> for a \<^verbatim>\<open>str\<close> variable \<open>s\<close>.\<close>

fun str_iadd :: "string \<Rightarrow> json \<Rightarrow> exn + string" where
  "str_iadd s (JStr t) = Inr (s @ t)"
| "str_iadd s v =
     Inl (TypeError (''can only concatenate str (not '' @ [CHR 0x22] @ type_name v @ [CHR 0x22]
                      @ '') to str''))"

text \<open>\<^verbatim>\<open>x / t\<close> for a float \<open>t\<close>; a \<^verbatim>\<open>bool\<close> counts as the integer 0 or 1.\<close>

fun truediv :: "json \<Rightarrow> real \<Rightarrow> exn + real" where
  "truediv (JInt n) t =
     (if t = 0 then Inl (ZeroDivisionError ''float division by zero'') else Inr (real_of_int n / t))"
| "truediv (JBool b) t =
     (if t = 0 then Inl (ZeroDivisionError ''float division by zero'')
      else Inr ((if b then 1 else 0) / t))"
| "truediv (JFloat x) t =
     (if t = 0 then Inl (ZeroDivisionError ''float division by zero'') else Inr (x / t))"
| "truediv v t =
     Inl (TypeError (''unsupported operand type(s) for /: '' @ quoted (type_name v) @ '' and ''
                      @ quoted ''float''))"

subsection \<open>Float arithmetic where the order matters\<close>

text \<open>
  A float operation is the exact operation followed by rounding to the nearest float, so
  the value of a sum of several floats depends on the order in which they are added.
  In the summary of \<^verbatim>\<open>run_bench\<close>, where sums are taken over the results in the
  order of their completion, the rounding is a parameter \<open>rnd\<close> of the model and every
  float operation is written as the exact one followed by \<open>rnd\<close>; an integer that
  meets a float is converted first. In the worker no property depends on the rounding of
  a single operation, and the operations are the exact ones.

  \<open>round_double\<close> is the rounding of binary64, to the nearest value with 53 significant
  bits, ties to the even one, for magnitudes in the normal range: \<open>binade x\<close> is the
  exponent \<open>e\<close> with \<open>2 powi e \<le> \<bar>x\<bar> < 2 powi (e + 1)\<close>, found by a search that the
  exponent range of binary64 bounds.
\<close>

fun binade_search :: "nat \<Rightarrow> real \<Rightarrow> int \<Rightarrow> int" where
  "binade_search 0 x e = e"
| "binade_search (Suc fuel) x e =
     (if x < 2 powi e then binade_search fuel x (e - 1)
      else if 2 powi (e + 1) \<le> x then binade_search fuel x (e + 1)
      else e)"

definition binade :: "real \<Rightarrow> int" where
  "binade x = binade_search 2200 \<bar>x\<bar> 0"

definition round_half_even :: "real \<Rightarrow> int" where
  "round_half_even q =
     (let n = \<lfloor>q\<rfloor>; f = q - of_int n
      in if f < 1 / 2 then n else if 1 / 2 < f then n + 1 else if even n then n else n + 1)"

definition round_double :: "real \<Rightarrow> real" where
  "round_double x =
     (if x = 0 then 0
      else (let e = binade x - 52 in of_int (round_half_even (x / 2 powi e)) * 2 powi e))"

text \<open>\<^verbatim>\<open>float(n)\<close> for an integer, as an operation between an integer and a float applies it.\<close>

definition to_float :: "(real \<Rightarrow> real) \<Rightarrow> int \<Rightarrow> real" where
  "to_float rnd n = rnd (real_of_int n)"

text \<open>
  \<^verbatim>\<open>a + b\<close> where \<open>a\<close> is a running total of \<^verbatim>\<open>sum\<close>, which starts at the
  integer 0 and so is always an \<^verbatim>\<open>int\<close> or a \<^verbatim>\<open>float\<close>. Integers add exactly; a
  \<^verbatim>\<open>bool\<close> counts as the integer 0 or 1.
\<close>

fun num_add :: "(real \<Rightarrow> real) \<Rightarrow> json \<Rightarrow> json \<Rightarrow> exn + json" where
  "num_add rnd (JInt a) (JInt b) = Inr (JInt (a + b))"
| "num_add rnd (JInt a) (JBool b) = Inr (JInt (a + (if b then 1 else 0)))"
| "num_add rnd (JInt a) (JFloat y) = Inr (JFloat (rnd (to_float rnd a + y)))"
| "num_add rnd (JFloat x) (JInt b) = Inr (JFloat (rnd (x + to_float rnd b)))"
| "num_add rnd (JFloat x) (JBool b) = Inr (JFloat (rnd (x + to_float rnd (if b then 1 else 0))))"
| "num_add rnd (JFloat x) (JFloat y) = Inr (JFloat (rnd (x + y)))"
| "num_add rnd a b =
     Inl (TypeError (''unsupported operand type(s) for +: '' @ quoted (type_name a) @ '' and ''
                      @ quoted (type_name b)))"

text \<open>\<^verbatim>\<open>sum(xs)\<close> over decoded values, left to right from the integer 0.\<close>

fun sum_from :: "(real \<Rightarrow> real) \<Rightarrow> json \<Rightarrow> json list \<Rightarrow> exn + json" where
  "sum_from rnd acc [] = Inr acc"
| "sum_from rnd acc (x # xs) =
     (case num_add rnd acc x of Inl e \<Rightarrow> Inl e | Inr acc' \<Rightarrow> sum_from rnd acc' xs)"

definition py_sum :: "(real \<Rightarrow> real) \<Rightarrow> json list \<Rightarrow> exn + json" where
  "py_sum rnd xs = sum_from rnd (JInt 0) xs"

text \<open>
  \<^verbatim>\<open>sum(xs)\<close> over floats, left to right from the integer 0: the sum of no float is
  0, the first addition, to 0, is exact, and each further addition rounds. This is the
  built-in \<^verbatim>\<open>sum\<close> of CPython through version 3.11; from 3.12 on it carries a
  correction term through the additions.
\<close>

fun float_sum :: "(real \<Rightarrow> real) \<Rightarrow> real list \<Rightarrow> real" where
  "float_sum rnd [] = 0"
| "float_sum rnd (x # xs) = foldl (\<lambda>a b. rnd (a + b)) x xs"

subsection \<open>Strings\<close>

text \<open>\<^verbatim>\<open>str.isspace\<close> on the code points below 256.\<close>

definition py_isspace :: "char \<Rightarrow> bool" where
  "py_isspace c =
     (let n = (of_char c :: nat)
      in (9 \<le> n \<and> n \<le> 13) \<or> (28 \<le> n \<and> n \<le> 32) \<or> n = 133 \<or> n = 160)"

definition strip :: "string \<Rightarrow> string" where
  "strip s = rev (dropWhile py_isspace (rev (dropWhile py_isspace s)))"

definition startswith :: "string \<Rightarrow> string \<Rightarrow> bool" where
  "startswith s p = (take (length p) s = p)"

text \<open>\<^verbatim>\<open>str(n)\<close> for an integer, as the f-string of the HTTP error renders the status.\<close>

fun str_nat :: "nat \<Rightarrow> string" where
  "str_nat n =
     (if n < 10 then [''0123456789'' ! n]
      else str_nat (n div 10) @ [''0123456789'' ! (n mod 10)])"

declare str_nat.simps [simp del]

definition str_int :: "int \<Rightarrow> string" where
  "str_int i = (if i < 0 then CHR ''-'' # str_nat (nat (- i)) else str_nat (nat i))"

section \<open>Results\<close>

text \<open>The dataclass \<^verbatim>\<open>RequestResult\<close> with its defaults.\<close>

record RequestResult =
  prompt :: string
  status :: string
  ttft_ms :: real
  total_time_s :: real
  prompt_tokens :: json
  completion_tokens :: json
  tokens_per_sec :: real
  error :: string

definition new_result :: "string \<Rightarrow> RequestResult" where
  "new_result p =
     \<lparr>prompt = p, status = ''ok'', ttft_ms = 0, total_time_s = 0, prompt_tokens = JInt 0,
      completion_tokens = JInt 0, tokens_per_sec = 0, error = ''''\<rparr>"

section \<open>The worker: \<^verbatim>\<open>send_request\<close>\<close>

text \<open>
  The environment of one request. \<^verbatim>\<open>time.perf_counter()\<close> is a sequence of
  readings: the \<open>n\<close>-th call returns \<open>clk n\<close>. \<^verbatim>\<open>session.post\<close> either raises or
  gives a response, of which the worker reads the status and then one of: the text
  (status not 200), the lines of the body followed by the end of the body or an
  exception (streaming), the decoded JSON body (not streaming). \<^verbatim>\<open>json.loads\<close> is
  a parameter \<open>loads\<close>, with \<open>None\<close> for \<^verbatim>\<open>JSONDecodeError\<close>, the only exception
  it raises on a string short of exhausting the interpreter's stack. The lines are the
  raw lines after \<^verbatim>\<open>decode("utf-8", errors="replace")\<close>.
\<close>

type_synonym clock = "nat \<Rightarrow> real"

record http_response =
  resp_status :: int
  resp_text :: "exn + string"
  resp_content :: "string list"
  resp_content_end :: "exn option"
  resp_json :: "exn + json"

datatype post_outcome = PostRaises exn | Response http_response

text \<open>The local variables of the streaming branch, and the number of clock readings taken.\<close>

record stream_vars =
  completion_text :: string
  last_chunk :: "json option"
  first_token_time :: "real option"
  ticks :: nat

text \<open>
  Lines 141 and 142:
  \<^verbatim>\<open>delta = last_chunk.get("choices", [{}])[0].get("delta", {})\<close>,
  \<^verbatim>\<open>token_text = delta.get("content") or ""\<close>.
\<close>

definition chunk_token_text :: "json \<Rightarrow> exn + json" where
  "chunk_token_text chunk =
     (case dict_get chunk ''choices'' (JArr [JObj []]) of
        Inl e \<Rightarrow> Inl e
      | Inr choices \<Rightarrow>
          (case subscript0 choices of
             Inl e \<Rightarrow> Inl e
           | Inr choice \<Rightarrow>
               (case dict_get choice ''delta'' (JObj []) of
                  Inl e \<Rightarrow> Inl e
                | Inr delta \<Rightarrow>
                    (case dict_get delta ''content'' JNull of
                       Inl e \<Rightarrow> Inl e
                     | Inr c \<Rightarrow> Inr (if truthy c then c else JStr '''')))))"

text \<open>
  Lines 138 to 145 for a payload that decoded to \<open>chunk\<close>. An exception leaves the
  loop with the number of clock readings taken so far.
\<close>

definition on_chunk :: "clock \<Rightarrow> json \<Rightarrow> stream_vars \<Rightarrow> exn \<times> nat + stream_vars" where
  "on_chunk clk chunk v =
     (let v1 = v\<lparr>last_chunk := Some chunk\<rparr> in
      case chunk_token_text chunk of
        Inl e \<Rightarrow> Inl (e, ticks v1)
      | Inr token_text \<Rightarrow>
          (let v2 = (if truthy token_text \<and> first_token_time v1 = None
                     then v1\<lparr>first_token_time := Some (clk (ticks v1)), ticks := Suc (ticks v1)\<rparr>
                     else v1)
           in case str_iadd (completion_text v2) token_text of
                Inl e \<Rightarrow> Inl (e, ticks v2)
              | Inr s \<Rightarrow> Inr (v2\<lparr>completion_text := s\<rparr>)))"

text \<open>The loop of lines 130 to 145 over the lines of the body.\<close>

fun stream_loop ::
  "(string \<Rightarrow> json option) \<Rightarrow> clock \<Rightarrow> string list \<Rightarrow> exn option \<Rightarrow> stream_vars
     \<Rightarrow> exn \<times> nat + stream_vars" where
  "stream_loop loads clk [] fin v = (case fin of None \<Rightarrow> Inr v | Some e \<Rightarrow> Inl (e, ticks v))"
| "stream_loop loads clk (raw_line # rest) fin v =
     (let line = strip raw_line in
      if \<not> startswith line ''data:'' then stream_loop loads clk rest fin v
      else
        (let payload = strip (drop (length ''data:'') line) in
         if payload = ''[DONE]'' then Inr v
         else
           (case loads payload of
              None \<Rightarrow> stream_loop loads clk rest fin v
            | Some chunk \<Rightarrow>
                (case on_chunk clk chunk v of
                   Inl x \<Rightarrow> Inl x
                 | Inr v' \<Rightarrow> stream_loop loads clk rest fin v'))))"

text \<open>
  The variables on entry to the loop (lines 117, 128 and 129); one clock reading, \<open>t0\<close>,
  has been taken.
\<close>

definition vars0 :: stream_vars where
  "vars0 = \<lparr>completion_text = '''', last_chunk = None, first_token_time = None, ticks = 1\<rparr>"

text \<open>Lines 154 to 159: the usage block of the last decoded chunk.\<close>

definition usage_override :: "json \<Rightarrow> RequestResult \<Rightarrow> exn \<times> RequestResult + RequestResult" where
  "usage_override chunk r =
     (case dict_get chunk ''usage'' JNull of
        Inl e \<Rightarrow> Inl (e, r)
      | Inr u \<Rightarrow>
          (let usage = (if truthy u then u else JObj []) in
           case dict_get usage ''completion_tokens'' JNull of
             Inl e \<Rightarrow> Inl (e, r)
           | Inr c \<Rightarrow>
               (let r1 = (if truthy c then r\<lparr>completion_tokens := c\<rparr> else r) in
                case dict_get usage ''prompt_tokens'' JNull of
                  Inl e \<Rightarrow> Inl (e, r1)
                | Inr p \<Rightarrow> Inr (if truthy p then r1\<lparr>prompt_tokens := p\<rparr> else r1))))"

text \<open>Lines 147 to 151, after the loop; the clock is read once.\<close>

definition stream_estimate :: "clock \<Rightarrow> real \<Rightarrow> stream_vars \<Rightarrow> RequestResult \<Rightarrow> RequestResult" where
  "stream_estimate clk t0 v r =
     (let r1 = r\<lparr>total_time_s := clk (ticks v) - t0\<rparr>;
          r2 = r1\<lparr>completion_tokens := JInt (max 1 (int (length (completion_text v)) div 4))\<rparr>
      in case first_token_time v of
           None \<Rightarrow> r2
         | Some t \<Rightarrow> r2\<lparr>ttft_ms := (t - t0) * 1000\<rparr>)"

text \<open>Lines 147 to 159.\<close>

definition after_stream ::
  "clock \<Rightarrow> real \<Rightarrow> stream_vars \<Rightarrow> RequestResult
     \<Rightarrow> exn \<times> RequestResult \<times> nat + RequestResult \<times> nat" where
  "after_stream clk t0 v r =
     (let r3 = stream_estimate clk t0 v r;
          n = Suc (ticks v)
      in case last_chunk v of
           None \<Rightarrow> Inr (r3, n)
         | Some chunk \<Rightarrow>
             (if truthy chunk then
                (case usage_override chunk r3 of
                   Inl (e, r') \<Rightarrow> Inl (e, r', n)
                 | Inr r' \<Rightarrow> Inr (r', n))
              else Inr (r3, n)))"

text \<open>Lines 161 to 165, the branch without streaming.\<close>

definition whole_body ::
  "clock \<Rightarrow> real \<Rightarrow> exn + json \<Rightarrow> RequestResult
     \<Rightarrow> exn \<times> RequestResult \<times> nat + RequestResult \<times> nat" where
  "whole_body clk t0 body r =
     (case body of
        Inl e \<Rightarrow> Inl (e, r, 1)
      | Inr data \<Rightarrow>
          (let r1 = r\<lparr>total_time_s := clk 1 - t0\<rparr> in
           case dict_get data ''usage'' (JObj []) of
             Inl e \<Rightarrow> Inl (e, r1, 2)
           | Inr usage \<Rightarrow>
               (case dict_get usage ''prompt_tokens'' (JInt 0) of
                  Inl e \<Rightarrow> Inl (e, r1, 2)
                | Inr p \<Rightarrow>
                    (case dict_get usage ''completion_tokens'' (JInt 0) of
                       Inl e \<Rightarrow> Inl (e, r1\<lparr>prompt_tokens := p\<rparr>, 2)
                     | Inr c \<Rightarrow> Inr (r1\<lparr>prompt_tokens := p, completion_tokens := c\<rparr>, 2)))))"

text \<open>Lines 167 and 168.\<close>

definition set_rate ::
  "RequestResult \<times> nat \<Rightarrow> exn \<times> RequestResult \<times> nat + RequestResult" where
  "set_rate rn =
     (let r = fst rn; n = snd rn in
      if truthy (completion_tokens r) \<and> total_time_s r > 0 then
        (case truediv (completion_tokens r) (total_time_s r) of
           Inl e \<Rightarrow> Inl (e, r, n)
         | Inr q \<Rightarrow> Inr (r\<lparr>tokens_per_sec := q\<rparr>))
      else Inr r)"

text \<open>
  The body of the \<^verbatim>\<open>try\<close> statement, lines 120 to 168. \<open>Inr\<close> is a normal return;
  \<open>Inl\<close> is an exception, with the result as mutated so far and the number of clock
  readings taken. The first reading, \<open>clk 0\<close>, is \<open>t0\<close>.
\<close>

definition try_body ::
  "(string \<Rightarrow> json option) \<Rightarrow> clock \<Rightarrow> post_outcome \<Rightarrow> bool \<Rightarrow> RequestResult
     \<Rightarrow> exn \<times> RequestResult \<times> nat + RequestResult" where
  "try_body loads clk post stream result =
     (let t0 = clk 0 in
      case post of
        PostRaises e \<Rightarrow> Inl (e, result, 1)
      | Response resp \<Rightarrow>
          (if resp_status resp \<noteq> 200 then
             (let r1 = result\<lparr>status := ''error''\<rparr> in
              case resp_text resp of
                Inl e \<Rightarrow> Inl (e, r1, 1)
              | Inr body \<Rightarrow>
                  Inr (r1\<lparr>error := ''HTTP '' @ str_int (resp_status resp) @ '': '' @ body,
                          total_time_s := clk 1 - t0\<rparr>))
           else if stream then
             (case stream_loop loads clk (resp_content resp) (resp_content_end resp) vars0 of
                Inl (e, n) \<Rightarrow> Inl (e, result, n)
              | Inr v \<Rightarrow>
                  (case after_stream clk t0 v result of
                     Inl x \<Rightarrow> Inl x
                   | Inr rn \<Rightarrow> set_rate rn))
           else
             (case whole_body clk t0 (resp_json resp) result of
                Inl x \<Rightarrow> Inl x
              | Inr rn \<Rightarrow> set_rate rn)))"

text \<open>
  \<^verbatim>\<open>send_request\<close>. The URL, the model name, \<^verbatim>\<open>max_tokens\<close> and the temperature
  only shape the request that is sent; what comes back is \<open>post\<close>. The handler of
  lines 170 to 173 turns an exception into an error result.
\<close>

definition send_request ::
  "(string \<Rightarrow> json option) \<Rightarrow> clock \<Rightarrow> post_outcome \<Rightarrow> string \<Rightarrow> bool \<Rightarrow> RequestResult" where
  "send_request loads clk post prompt_text stream =
     (case try_body loads clk post stream (new_result prompt_text) of
        Inr r \<Rightarrow> r
      | Inl (e, r, n) \<Rightarrow> r\<lparr>status := ''error'', error := str_exn e, total_time_s := clk n - clk 0\<rparr>)"

section \<open>The summary of \<^verbatim>\<open>run_bench\<close>\<close>

text \<open>
  Lines 274 to 288 compute, from the results in completion order and the wall time, the
  figures that lines 290 to 304 print. Division, indexing and \<^verbatim>\<open>max\<close>/\<^verbatim>\<open>min\<close>
  raise where Python raises. The sums of lines 283 and 285 add floats in the order of the
  list, and every float operation rounds with \<open>rnd\<close>. \<^verbatim>\<open>sorted\<close>,
  \<^verbatim>\<open>max\<close> and \<^verbatim>\<open>min\<close> compare floats, which for numbers is the order of the
  reals; a NaN, which no comparison orders, is not a value of the model.
\<close>

record summary =
  n_ok :: nat
  errs :: nat
  total_comp :: json
  total_prompt :: json
  avg_tps :: real
  aggregate_tps :: real
  avg_ttft :: real
  p50 :: real
  fastest :: real
  slowest :: real

datatype report = AllFailed | Summary summary

text \<open>\<^verbatim>\<open>x / n\<close> for a number \<open>x\<close> taken as a float and an integer \<open>n\<close>.\<close>

definition float_div :: "(real \<Rightarrow> real) \<Rightarrow> real \<Rightarrow> nat \<Rightarrow> exn + real" where
  "float_div rnd x n =
     (if n = 0 then Inl (ZeroDivisionError ''float division by zero'')
      else Inr (rnd (x / to_float rnd (int n))))"

text \<open>\<^verbatim>\<open>total / wall\<close> for a total of \<^verbatim>\<open>sum\<close> and the float \<open>wall\<close>.\<close>

fun num_div :: "(real \<Rightarrow> real) \<Rightarrow> json \<Rightarrow> real \<Rightarrow> exn + real" where
  "num_div rnd (JInt n) t =
     (if t = 0 then Inl (ZeroDivisionError ''float division by zero'')
      else Inr (rnd (to_float rnd n / t)))"
| "num_div rnd (JBool b) t =
     (if t = 0 then Inl (ZeroDivisionError ''float division by zero'')
      else Inr (rnd (to_float rnd (if b then 1 else 0) / t)))"
| "num_div rnd (JFloat x) t =
     (if t = 0 then Inl (ZeroDivisionError ''float division by zero'') else Inr (rnd (x / t)))"
| "num_div rnd v t =
     Inl (TypeError (''unsupported operand type(s) for /: '' @ quoted (type_name v) @ '' and ''
                      @ quoted ''float''))"

definition list_item :: "'a list \<Rightarrow> nat \<Rightarrow> exn + 'a" where
  "list_item xs i =
     (if i < length xs then Inr (xs ! i) else Inl (IndexError ''list index out of range''))"

definition py_max :: "real list \<Rightarrow> exn + real" where
  "py_max xs =
     (if xs = [] then Inl (ValueError ''max() arg is an empty sequence'') else Inr (Max (set xs)))"

definition py_min :: "real list \<Rightarrow> exn + real" where
  "py_min xs =
     (if xs = [] then Inl (ValueError ''min() arg is an empty sequence'') else Inr (Min (set xs)))"

definition run_bench_report ::
  "(real \<Rightarrow> real) \<Rightarrow> RequestResult list \<Rightarrow> real \<Rightarrow> exn + report" where
  "run_bench_report rnd results wall =
     (let ok = filter (\<lambda>r. status r = ''ok'') results;
          n_err = length results - length ok
      in if ok = [] then Inr AllFailed
         else
           (case py_sum rnd (map completion_tokens ok) of
              Inl e \<Rightarrow> Inl e
            | Inr tcomp \<Rightarrow>
           (case py_sum rnd (map prompt_tokens ok) of
              Inl e \<Rightarrow> Inl e
            | Inr tprompt \<Rightarrow>
           (case float_div rnd (float_sum rnd (map tokens_per_sec ok)) (length ok) of
              Inl e \<Rightarrow> Inl e
            | Inr avg \<Rightarrow>
           (case (if wall \<noteq> 0 then num_div rnd tcomp wall else Inr 0) of
              Inl e \<Rightarrow> Inl e
            | Inr agg \<Rightarrow>
           (case float_div rnd (float_sum rnd (filter (\<lambda>t. t \<noteq> 0) (map ttft_ms ok)))
                   (max 1 (length (filter (\<lambda>t. t \<noteq> 0) (map ttft_ms ok)))) of
              Inl e \<Rightarrow> Inl e
            | Inr ttft \<Rightarrow>
           (case list_item (sort (map tokens_per_sec ok)) (length ok div 2) of
              Inl e \<Rightarrow> Inl e
            | Inr median \<Rightarrow>
           (case py_max (map tokens_per_sec ok) of
              Inl e \<Rightarrow> Inl e
            | Inr hi \<Rightarrow>
           (case py_min (map tokens_per_sec ok) of
              Inl e \<Rightarrow> Inl e
            | Inr lo \<Rightarrow>
                Inr (Summary
                  \<lparr>n_ok = length ok, errs = n_err, total_comp = tcomp, total_prompt = tprompt,
                   avg_tps = avg, aggregate_tps = agg, avg_ttft = ttft, p50 = median,
                   fastest = hi, slowest = lo\<rparr>))))))))))"

section \<open>The orchestrator of \<^verbatim>\<open>run_bench\<close>\<close>

text \<open>
  Lines 233 to 240 and 258 to 268 as a transition system. Each prompt has a task, which
  waits at \<^verbatim>\<open>async with sem\<close>, holds a slot while \<^verbatim>\<open>send_request\<close> runs, and is
  done, with its slot released, when that returns; the loop over
  \<^verbatim>\<open>asyncio.as_completed\<close> then appends the result and prints a line of progress.
  \<open>sem\<close> is the value of the semaphore, \<open>raised\<close> the exception that has ended
  \<^verbatim>\<open>run_bench\<close>, if any. Every interleaving of the tasks is a run; the environment of
  each request (its clock readings and what the server sends) is arbitrary.
\<close>

datatype task = Waiting string | Running string | Done RequestResult | Collected

record bench_state =
  sem :: nat
  tasks :: "task list"
  results :: "RequestResult list"
  raised :: "exn option"


text \<open>
  Lines 262 to 268 build the line of progress and print it; \<open>progress_line\<close> is the
  exception this raises, if any. The status, the error text and the three floats
  \<^verbatim>\<open>tokens_per_sec\<close>, \<^verbatim>\<open>ttft_ms\<close> and \<^verbatim>\<open>total_time_s\<close> always format. The
  field \<^verbatim>\<open>completion_tokens\<close> is formatted with \<^verbatim>\<open>{r.completion_tokens:>4}\<close>: an
  \<^verbatim>\<open>int\<close>, \<^verbatim>\<open>bool\<close>, \<^verbatim>\<open>float\<close> or \<^verbatim>\<open>str\<close> accepts the format, while
  \<^verbatim>\<open>None\<close>, a \<^verbatim>\<open>list\<close> and a \<^verbatim>\<open>dict\<close> raise \<^verbatim>\<open>TypeError\<close>. Writing to the
  standard output is taken to succeed.
\<close>

fun format_right :: "json \<Rightarrow> exn option" where
  "format_right JNull =
     Some (TypeError ''unsupported format string passed to NoneType.__format__'')"
| "format_right (JArr xs) =
     Some (TypeError ''unsupported format string passed to list.__format__'')"
| "format_right (JObj kvs) =
     Some (TypeError ''unsupported format string passed to dict.__format__'')"
| "format_right v = None"

definition progress_line :: "RequestResult \<Rightarrow> exn option" where
  "progress_line r = format_right (completion_tokens r)"

text \<open>
  The steps of a run, for the decoder and the \<^verbatim>\<open>stream\<close> flag of the batch; none is
  possible once \<^verbatim>\<open>run_bench\<close> has raised:
  \<^item> \<open>acquire\<close>: a waiting task enters \<^verbatim>\<open>async with sem\<close> (line 236), which needs
    a positive value and lowers it;
  \<^item> \<open>finish\<close>: \<^verbatim>\<open>send_request\<close> returns to a running task (line 237; it returns
    a result and never raises), the \<^verbatim>\<open>async with\<close> block is left and raises the value;
  \<^item> \<open>collect\<close>: the loop of lines 259 to 268 takes the result of a finished task,
    appends it to \<^verbatim>\<open>results\<close> and prints its line of progress;
  \<^item> \<open>abort\<close>: the same, but the line of progress raises after the result has been
    appended (line 261), and the exception leaves the loop and \<^verbatim>\<open>run_bench\<close>.
\<close>

inductive step :: "(string \<Rightarrow> json option) \<Rightarrow> bool \<Rightarrow> bench_state \<Rightarrow> bench_state \<Rightarrow> bool"
  for loads :: "string \<Rightarrow> json option" and stream :: bool where
  acquire:
    "raised s = None \<Longrightarrow> tasks s = xs @ Waiting p # ys \<Longrightarrow> 0 < sem s \<Longrightarrow>
     step loads stream s (s\<lparr>sem := sem s - 1, tasks := xs @ Running p # ys\<rparr>)"
| finish:
    "raised s = None \<Longrightarrow> tasks s = xs @ Running p # ys \<Longrightarrow>
     r = send_request loads clk post p stream \<Longrightarrow>
     step loads stream s (s\<lparr>sem := sem s + 1, tasks := xs @ Done r # ys\<rparr>)"
| collect:
    "raised s = None \<Longrightarrow> tasks s = xs @ Done r # ys \<Longrightarrow> progress_line r = None \<Longrightarrow>
     step loads stream s (s\<lparr>tasks := xs @ Collected # ys, results := results s @ [r]\<rparr>)"
| abort:
    "raised s = None \<Longrightarrow> tasks s = xs @ Done r # ys \<Longrightarrow> progress_line r = Some e \<Longrightarrow>
     step loads stream s
       (s\<lparr>tasks := xs @ Collected # ys, results := results s @ [r], raised := Some e\<rparr>)"

fun is_waiting :: "task \<Rightarrow> bool" where
  "is_waiting (Waiting p) = True"
| "is_waiting t = False"

fun is_running :: "task \<Rightarrow> bool" where
  "is_running (Running p) = True"
| "is_running t = False"

fun is_done :: "task \<Rightarrow> bool" where
  "is_done (Done r) = True"
| "is_done t = False"


text \<open>Whether some task, or the collecting loop, can move.\<close>

definition can_step :: "bench_state \<Rightarrow> bool" where
  "can_step s =
     (raised s = None \<and>
      ((0 < sem s \<and> filter is_waiting (tasks s) \<noteq> []) \<or> filter is_running (tasks s) \<noteq> []
       \<or> filter is_done (tasks s) \<noteq> []))"



section \<open>Notions used to state the properties\<close>

text \<open>The payload of a line that carries one (lines 131 to 134).\<close>

definition data_payload :: "string \<Rightarrow> string option" where
  "data_payload raw_line =
     (let line = strip raw_line in
      if startswith line ''data:'' then Some (strip (drop (length ''data:'') line)) else None)"

text \<open>The events of a body: the payloads that decode, up to the sentinel.\<close>

fun events :: "(string \<Rightarrow> json option) \<Rightarrow> string list \<Rightarrow> json list" where
  "events loads [] = []"
| "events loads (raw_line # rest) =
     (case data_payload raw_line of
        None \<Rightarrow> events loads rest
      | Some payload \<Rightarrow>
          (if payload = ''[DONE]'' then []
           else (case loads payload of
                   None \<Rightarrow> events loads rest
                 | Some chunk \<Rightarrow> chunk # events loads rest)))"

text \<open>The content delta of an event, empty when it has none.\<close>

definition delta_content :: "json \<Rightarrow> string" where
  "delta_content chunk = (case chunk_token_text chunk of Inr (JStr s) \<Rightarrow> s | _ \<Rightarrow> [])"

text \<open>The usage block of an event, and a field of it.\<close>

definition usage_block :: "json \<Rightarrow> json option" where
  "usage_block chunk =
     (case chunk of
        JObj kvs \<Rightarrow>
          (case map_of kvs ''usage'' of
             None \<Rightarrow> None
           | Some u \<Rightarrow> if u = JNull then None else Some u)
      | _ \<Rightarrow> None)"

definition usage_field :: "json \<Rightarrow> string \<Rightarrow> json option" where
  "usage_field chunk key =
     (case usage_block chunk of Some (JObj us) \<Rightarrow> map_of us key | _ \<Rightarrow> None)"


text \<open>
  The values of \<^verbatim>\<open>json.loads\<close> on the payloads of the examples below. The payload
  \<^verbatim>\<open>{"choices": [{"delta"\<close> is cut short and does not decode.
\<close>

definition content_event :: "string \<Rightarrow> json" where
  "content_event s = JObj [(''choices'', JArr [JObj [(''delta'', JObj [(''content'', JStr s)])]])]"

definition usage_event :: "int \<Rightarrow> json" where
  "usage_event n = JObj [(''usage'', JObj [(''completion_tokens'', JInt n)])]"

definition sample_loads :: "string \<Rightarrow> json option" where
  \<open>sample_loads payload =
     (if payload = ''{"choices": [{"delta": {"content": "Hel"}}]}'' then Some (content_event ''Hel'')
      else if payload = ''{"choices": [{"delta": {"content": "lo"}}]}'' then Some (content_event ''lo'')
      else if payload = ''{"choices": [{"delta": {"content": "seventeen chars!!"}}]}''
        then Some (content_event ''seventeen chars!!'')
      else if payload = ''{"usage": {"completion_tokens": 5}}'' then Some (usage_event 5)
      else if payload = ''{"usage": {"completion_tokens": -3}}'' then Some (usage_event (- 3))
      else None)\<close>

text \<open>Whether the loop reads the body to its end, or to the sentinel, without an exception.\<close>

definition body_read :: "(string \<Rightarrow> json option) \<Rightarrow> clock \<Rightarrow> http_response \<Rightarrow> bool" where
  "body_read loads clk resp =
     (case stream_loop loads clk (resp_content resp) (resp_content_end resp) vars0 of
        Inl x \<Rightarrow> False
      | Inr v \<Rightarrow> True)"

text \<open>Lines of example bodies.\<close>

definition line_hel :: string where
  \<open>line_hel = ''data: {"choices": [{"delta": {"content": "Hel"}}]}''\<close>

definition line_lo :: string where
  \<open>line_lo = ''data: {"choices": [{"delta": {"content": "lo"}}]}''\<close>

definition line_17 :: string where
  \<open>line_17 = ''data: {"choices": [{"delta": {"content": "seventeen chars!!"}}]}''\<close>

definition line_usage5 :: string where
  \<open>line_usage5 = ''data: {"usage": {"completion_tokens": 5}}''\<close>

definition line_usage_neg :: string where
  \<open>line_usage_neg = ''data: {"usage": {"completion_tokens": -3}}''\<close>


definition line_done :: string where
  "line_done = ''data: [DONE]''"

text \<open>A response with status 200 and the given lines as its body, which then ends.\<close>

definition streamed :: "string list \<Rightarrow> http_response" where
  "streamed ls =
     \<lparr>resp_status = 200, resp_text = Inr '''', resp_content = ls,
      resp_content_end = None, resp_json = Inl (TransportError ''not JSON'')\<rparr>"

text \<open>A clock that reads 0, 1, 2, ... seconds.\<close>

definition seconds :: clock where
  "seconds n = real n"

text \<open>The results with status \<^verbatim>\<open>ok\<close>, as line 274 selects them.\<close>

definition ok_results :: "RequestResult list \<Rightarrow> RequestResult list" where
  "ok_results rs = filter (\<lambda>r. status r = ''ok'') rs"

text \<open>Numbers among the decoded values, floats among them, and the value of an integer.\<close>

fun is_number :: "json \<Rightarrow> bool" where
  "is_number (JInt n) = True"
| "is_number (JBool b) = True"
| "is_number (JFloat x) = True"
| "is_number v = False"

fun is_float :: "json \<Rightarrow> bool" where
  "is_float (JFloat x) = True"
| "is_float v = False"

fun int_val :: "json \<Rightarrow> int" where
  "int_val (JInt n) = n"
| "int_val (JBool b) = (if b then 1 else 0)"
| "int_val v = 0"

text \<open>The token counts that the summary adds up.\<close>

definition token_counts :: "RequestResult list \<Rightarrow> json list" where
  "token_counts rs = map completion_tokens (ok_results rs) @ map prompt_tokens (ok_results rs)"



text \<open>An \<^verbatim>\<open>ok\<close> result with the given rate and completion-token count.\<close>

definition ok_result :: "real \<Rightarrow> int \<Rightarrow> RequestResult" where
  "ok_result rate n =
     \<lparr>prompt = ''q'', status = ''ok'', ttft_ms = 100, total_time_s = 1, prompt_tokens = JInt 7,
      completion_tokens = JInt n, tokens_per_sec = rate, error = ''''\<rparr>"

text \<open>An error result, as a timeout leaves it.\<close>

definition error_result :: RequestResult where
  "error_result =
     \<lparr>prompt = ''q'', status = ''error'', ttft_ms = 0, total_time_s = 120, prompt_tokens = JInt 0,
      completion_tokens = JInt 0, tokens_per_sec = 0, error = ''''\<rparr>"

text \<open>
  Three results of requests without streaming: 1 token in 10 seconds, 1 token in 5 seconds
  and 3 tokens in 10 seconds. Their rates are the floats that Python writes \<^verbatim>\<open>0.1\<close>,
  \<^verbatim>\<open>0.2\<close> and \<^verbatim>\<open>0.3\<close>.
\<close>

definition timed_result :: "int \<Rightarrow> real \<Rightarrow> real \<Rightarrow> RequestResult" where
  "timed_result n secs rate =
     \<lparr>prompt = ''q'', status = ''ok'', ttft_ms = 0, total_time_s = secs, prompt_tokens = JInt 0,
      completion_tokens = JInt n, tokens_per_sec = rate, error = ''''\<rparr>"

definition result_a :: RequestResult where
  "result_a = timed_result 1 10 (3602879701896397 / 2 ^ 55)"

definition result_b :: RequestResult where
  "result_b = timed_result 1 5 (3602879701896397 / 2 ^ 54)"

definition result_c :: RequestResult where
  "result_c = timed_result 3 10 (5404319552844595 / 2 ^ 54)"

text \<open>
  A response without streaming whose usage block reports \<^verbatim>\<open>"completion_tokens": null\<close>.
\<close>

definition null_usage :: http_response where
  "null_usage =
     \<lparr>resp_status = 200, resp_text = Inr '''', resp_content = [], resp_content_end = None,
      resp_json = Inr (JObj [(''usage'', JObj [(''completion_tokens'', JNull)])])\<rparr>"

section \<open>Properties of the worker\<close>

subsection \<open>The loop\<close>

lemma str_iadd_Inr: "str_iadd s x = Inr t \<Longrightarrow> \<exists>u. x = JStr u \<and> t = s @ u"
  by (cases x) auto

lemma on_chunk_Inr:
  assumes "on_chunk clk chunk v = Inr v'"
  shows "last_chunk v' = Some chunk"
    and "completion_text v' = completion_text v @ delta_content chunk"
    and "ticks v \<le> ticks v'"
  using assms
  by (auto simp: on_chunk_def Let_def delta_content_def split: sum.splits if_splits
           dest!: str_iadd_Inr)

lemma on_chunk_Inl: "on_chunk clk chunk v = Inl (e, n) \<Longrightarrow> ticks v \<le> n"
  by (auto simp: on_chunk_def Let_def split: sum.splits if_splits)

lemma on_chunk_is_dict: "on_chunk clk chunk v = Inr v' \<Longrightarrow> \<exists>kvs. chunk = JObj kvs"
  by (cases chunk) (auto simp: on_chunk_def chunk_token_text_def Let_def)


lemma stream_loop_Inr:
  "stream_loop loads clk lines fin v = Inr v' \<Longrightarrow>
     completion_text v' = completion_text v @ concat (map delta_content (events loads lines)) \<and>
     last_chunk v' = (if events loads lines = [] then last_chunk v
                      else Some (last (events loads lines))) \<and>
     (\<forall>ev \<in> set (events loads lines). \<exists>kvs. ev = JObj kvs) \<and>
     ticks v \<le> ticks v'"
proof (induction lines arbitrary: v)
  case Nil
  then show ?case by (simp split: option.splits)
next
  case (Cons raw rest)
  show ?case
  proof (cases "data_payload raw")
    case None
    with Cons show ?thesis
      by (simp add: data_payload_def Let_def split: if_splits)
  next
    case (Some payload)
    show ?thesis
    proof (cases "payload = ''[DONE]''")
      case True
      with Some Cons.prems show ?thesis
        by (simp add: data_payload_def Let_def split: if_splits)
    next
      case notdone: False
      show ?thesis
      proof (cases "loads payload")
        case None
        with Some notdone Cons show ?thesis
          by (simp add: data_payload_def Let_def split: if_splits)
      next
        case (Some chunk)
        from Cons.prems \<open>data_payload raw = Some payload\<close> notdone Some
        obtain v1 where v1: "on_chunk clk chunk v = Inr v1"
          and rest: "stream_loop loads clk rest fin v1 = Inr v'"
          by (auto simp: data_payload_def Let_def split: if_splits sum.splits)
        from Cons.IH[OF rest] on_chunk_Inr[OF v1] on_chunk_is_dict[OF v1]
        show ?thesis
          using \<open>data_payload raw = Some payload\<close> notdone Some
          by auto
      qed
    qed
  qed
qed

lemma stream_loop_Inl:
  "stream_loop loads clk lines fin v = Inl (e, n) \<Longrightarrow> ticks v \<le> n"
proof (induction lines arbitrary: v)
  case Nil
  then show ?case by (simp split: option.splits)
next
  case (Cons raw rest)
  then show ?case
    by (fastforce simp: Let_def split: if_splits option.splits sum.splits
                  dest: on_chunk_Inl on_chunk_Inr(3))
qed

subsection \<open>After the loop\<close>

lemma try_body_stream:
  "resp_status resp = 200 \<Longrightarrow>
   try_body loads clk (Response resp) True r0 =
     (case stream_loop loads clk (resp_content resp) (resp_content_end resp) vars0 of
        Inl (e, n) \<Rightarrow> Inl (e, r0, n)
      | Inr v \<Rightarrow> (case after_stream clk (clk 0) v r0 of Inl x \<Rightarrow> Inl x | Inr rn \<Rightarrow> set_rate rn))"
  by (simp add: try_body_def Let_def)

lemma set_rate_Inr:
  "set_rate (r, n) = Inr r' \<Longrightarrow>
     completion_tokens r' = completion_tokens r \<and> prompt_tokens r' = prompt_tokens r \<and>
     status r' = status r"
  by (auto simp: set_rate_def Let_def split: if_splits sum.splits)

lemma set_rate_Inl: "set_rate (r, n) = Inl (e, r', n') \<Longrightarrow> r' = r \<and> n' = n"
  by (auto simp: set_rate_def Let_def split: if_splits sum.splits)

lemma usage_override_none:
  "usage_block (JObj kvs) = None \<Longrightarrow> usage_override (JObj kvs) r = Inr r"
  by (auto simp: usage_override_def usage_block_def Let_def split: option.splits if_splits)

lemma usage_override_completion:
  assumes "usage_field chunk ''completion_tokens'' = Some c" and "truthy c"
    and "usage_override chunk r = Inr r' \<or> usage_override chunk r = Inl (e, r')"
  shows "completion_tokens r' = c"
  using assms
  by (auto simp: usage_override_def usage_field_def usage_block_def Let_def
           split: option.splits if_splits json.splits sum.splits)

lemma usage_override_prompt:
  assumes "usage_field chunk ''prompt_tokens'' = Some q" and "truthy q"
    and "usage_override chunk r = Inr r' \<or> usage_override chunk r = Inl (e, r')"
  shows "prompt_tokens r' = q"
  using assms
  by (auto simp: usage_override_def usage_field_def usage_block_def Let_def
           split: option.splits if_splits json.splits sum.splits)

lemma usage_field_dict: "usage_field chunk key = Some c \<Longrightarrow> \<exists>kvs. chunk = JObj kvs \<and> kvs \<noteq> []"
  by (auto simp: usage_field_def usage_block_def split: json.splits option.splits if_splits)

lemma usage_override_total:
  "usage_field chunk key = Some c \<Longrightarrow> \<exists>r'. usage_override chunk r = Inr r'"
  by (auto simp: usage_override_def usage_field_def usage_block_def Let_def
           split: option.splits if_splits json.splits sum.splits)

text \<open>What the handler keeps of the result.\<close>

lemma send_request_fields:
  "try_body loads clk post stream (new_result p) = Inr r \<Longrightarrow>
     send_request loads clk post p stream = r"
  "try_body loads clk post stream (new_result p) = Inl (e, r, n) \<Longrightarrow>
     completion_tokens (send_request loads clk post p stream) = completion_tokens r \<and>
     prompt_tokens (send_request loads clk post p stream) = prompt_tokens r \<and>
     status (send_request loads clk post p stream) = ''error''"
  by (simp_all add: send_request_def)

lemma after_stream_ticks:
  "after_stream clk t0 v r = Inl (e, r', n) \<Longrightarrow> n = Suc (ticks v)"
  "after_stream clk t0 v r = Inr (r', n) \<Longrightarrow> n = Suc (ticks v)"
  by (auto simp: after_stream_def Let_def split: option.splits if_splits sum.splits)

lemma whole_body_ticks:
  "whole_body clk t0 b r = Inl (e, r', n) \<Longrightarrow> 1 \<le> n"
  "whole_body clk t0 b r = Inr (r', n) \<Longrightarrow> 1 \<le> n"
  by (auto simp: whole_body_def Let_def split: sum.splits)

lemma vars0_ticks: "ticks vars0 = 1"
  by (simp add: vars0_def)

lemma try_body_Inl_ticks:
  assumes "try_body loads clk post stream r0 = Inl (e, r, n)"
  shows "1 \<le> n"
proof (cases post)
  case (PostRaises x)
  with assms show ?thesis by (simp add: try_body_def)
next
  case (Response resp)
  show ?thesis
  proof (cases "resp_status resp = 200")
    case False
    with assms Response show ?thesis
      by (auto simp: try_body_def Let_def split: sum.splits)
  next
    case ok: True
    show ?thesis
    proof (cases stream)
      case True
      show ?thesis
      proof (cases "stream_loop loads clk (resp_content resp) (resp_content_end resp) vars0")
        case (Inl x)
        with assms Response ok True stream_loop_Inl[of loads clk _ _ vars0 e n]
        show ?thesis
          by (cases x) (auto simp: try_body_def Let_def vars0_ticks)
      next
        case (Inr v)
        with assms Response ok True show ?thesis
          by (auto simp: try_body_def Let_def split: sum.splits prod.splits
                   dest!: after_stream_ticks set_rate_Inl)
      qed
    next
      case False
      with assms Response ok show ?thesis
        by (auto simp: try_body_def Let_def split: sum.splits prod.splits
                 dest!: whole_body_ticks set_rate_Inl)
    qed
  qed
qed

text \<open>
  The failures of the transport all reach the handler: \<^verbatim>\<open>session.post\<close> raising,
  the text of an error response failing to arrive, the body breaking off or timing out
  while it is streamed, and \<^verbatim>\<open>resp.json()\<close> failing to decode.
\<close>

lemma post_raises: "try_body loads clk (PostRaises e) stream r = Inl (e, r, 1)"
  by (simp add: try_body_def)

lemma text_raises:
  "resp_status resp \<noteq> 200 \<Longrightarrow> resp_text resp = Inl e \<Longrightarrow>
     try_body loads clk (Response resp) stream r = Inl (e, r\<lparr>status := ''error''\<rparr>, 1)"
  by (simp add: try_body_def Let_def)

lemma stream_raises:
  "resp_status resp = 200 \<Longrightarrow>
   stream_loop loads clk (resp_content resp) (resp_content_end resp) vars0 = Inl (e, n) \<Longrightarrow>
     try_body loads clk (Response resp) True r = Inl (e, r, n)"
  by (simp add: try_body_def Let_def)

lemma json_raises:
  "resp_status resp = 200 \<Longrightarrow> resp_json resp = Inl e \<Longrightarrow>
     try_body loads clk (Response resp) False r = Inl (e, r, 1)"
  by (simp add: try_body_def whole_body_def Let_def)

text \<open>
  C4. \<^verbatim>\<open>send_request\<close> always returns a result. Whenever an exception arises in the
  body of its \<^verbatim>\<open>try\<close> statement, the result has status \<^verbatim>\<open>error\<close>, its
  \<^verbatim>\<open>error\<close> field is the text of the exception, and \<^verbatim>\<open>total_time_s\<close> is the clock
  reading taken in the handler, which is a later reading than \<open>t0\<close>, minus \<open>t0\<close>.
\<close>

theorem exception_becomes_error_result:
  assumes "try_body loads clk post stream (new_result p) = Inl (e, r, n)"
  shows "status (send_request loads clk post p stream) = ''error'' \<and>
         error (send_request loads clk post p stream) = str_exn e \<and>
         total_time_s (send_request loads clk post p stream) = clk n - clk 0 \<and> 1 \<le> n"
  using assms try_body_Inl_ticks[OF assms] by (simp add: send_request_def)

text \<open>A connection that is reset after the first delta: the clock has been read for \<open>t0\<close> and for the first token, so the handler takes the third reading.\<close>

theorem exception_becomes_error_result_witness:
  "try_body sample_loads seconds
     (Response ((streamed [line_hel])\<lparr>resp_content_end := Some (TransportError ''Connection reset by peer'')\<rparr>))
     True (new_result ''q'') = Inl (TransportError ''Connection reset by peer'', new_result ''q'', 2) \<and>
   status (send_request sample_loads seconds
     (Response ((streamed [line_hel])\<lparr>resp_content_end := Some (TransportError ''Connection reset by peer'')\<rparr>))
     ''q'' True) = ''error'' \<and>
   error (send_request sample_loads seconds
     (Response ((streamed [line_hel])\<lparr>resp_content_end := Some (TransportError ''Connection reset by peer'')\<rparr>))
     ''q'' True) = ''Connection reset by peer'' \<and>
   total_time_s (send_request sample_loads seconds
     (Response ((streamed [line_hel])\<lparr>resp_content_end := Some (TransportError ''Connection reset by peer'')\<rparr>))
     ''q'' True) = 2"
proof -
  let ?post = "Response ((streamed [line_hel])\<lparr>resp_content_end := Some (TransportError ''Connection reset by peer'')\<rparr>)"
  have h: "try_body sample_loads seconds ?post True (new_result ''q'') =
             Inl (TransportError ''Connection reset by peer'', new_result ''q'', 2)"
    by code_simp
  from exception_becomes_error_result[OF h] h show ?thesis by (simp add: seconds_def)
qed

text \<open>
  C8. For a response whose status is not 200 and whose text is read as \<open>body\<close>, the
  result is the fresh result with status \<^verbatim>\<open>error\<close>, error
  \<^verbatim>\<open>"HTTP <status>: <body>"\<close> and the elapsed time; nothing else of the response is
  looked at, and \<^verbatim>\<open>tokens_per_sec\<close> stays 0.
\<close>

theorem non_200_error_result:
  assumes "resp_status resp \<noteq> 200" and "resp_text resp = Inr body"
  shows "send_request loads clk (Response resp) p stream =
           (new_result p)\<lparr>status := ''error'',
              error := ''HTTP '' @ str_int (resp_status resp) @ '': '' @ body,
              total_time_s := clk 1 - clk 0\<rparr> \<and>
         tokens_per_sec (send_request loads clk (Response resp) p stream) = 0"
  using assms by (simp add: send_request_def try_body_def Let_def new_result_def)

text \<open>Status 500 with the body "overloaded".\<close>

theorem non_200_error_result_witness:
  "resp_status ((streamed [])\<lparr>resp_status := 500, resp_text := Inr ''overloaded''\<rparr>) \<noteq> 200 \<and>
   status (send_request sample_loads seconds
     (Response ((streamed [])\<lparr>resp_status := 500, resp_text := Inr ''overloaded''\<rparr>)) ''q'' True)
     = ''error'' \<and>
   error (send_request sample_loads seconds
     (Response ((streamed [])\<lparr>resp_status := 500, resp_text := Inr ''overloaded''\<rparr>)) ''q'' True)
     = ''HTTP 500: overloaded'' \<and>
   total_time_s (send_request sample_loads seconds
     (Response ((streamed [])\<lparr>resp_status := 500, resp_text := Inr ''overloaded''\<rparr>)) ''q'' True)
     = 1 \<and>
   tokens_per_sec (send_request sample_loads seconds
     (Response ((streamed [])\<lparr>resp_status := 500, resp_text := Inr ''overloaded''\<rparr>)) ''q'' True)
     = 0"
proof -
  let ?resp = "(streamed [])\<lparr>resp_status := 500, resp_text := Inr ''overloaded''\<rparr>"
  have h1: "resp_status ?resp \<noteq> 200" by simp
  have h2: "resp_text ?resp = Inr ''overloaded''" by simp
  have s: "str_int 500 = ''500''" by code_simp
  from non_200_error_result[OF h1 h2, of sample_loads seconds "''q''" True] s h1
  show ?thesis by (simp add: new_result_def seconds_def)
qed



lemma ok_is_Inr:
  assumes "status (send_request loads clk post p stream) = ''ok''"
  obtains r where "try_body loads clk post stream (new_result p) = Inr r"
    and "send_request loads clk post p stream = r"
  using assms
  by (cases "try_body loads clk post stream (new_result p)")
     (auto simp: send_request_def split: prod.splits)

lemma ok_stream_parts:
  assumes "status (send_request loads clk (Response resp) p True) = ''ok''"
  obtains v r3 n where
    "stream_loop loads clk (resp_content resp) (resp_content_end resp) vars0 = Inr v"
    "after_stream clk (clk 0) v (new_result p) = Inr (r3, n)"
    "set_rate (r3, n) = Inr (send_request loads clk (Response resp) p True)"
proof -
  from assms obtain r where r: "try_body loads clk (Response resp) True (new_result p) = Inr r"
    and sr: "send_request loads clk (Response resp) p True = r"
    by (rule ok_is_Inr)
  have s200: "resp_status resp = 200"
  proof (rule ccontr)
    assume "resp_status resp \<noteq> 200"
    with r have "status r = ''error''"
      by (auto simp: try_body_def Let_def split: sum.splits)
    with assms sr show False by simp
  qed
  from r s200 show ?thesis
    using that sr
    by (auto simp: try_body_stream split: sum.splits prod.splits)
qed

lemma usage_override_cases:
  assumes "usage_override ch r = Inr r'"
  shows "completion_tokens r' = completion_tokens r \<or>
         (usage_field ch ''completion_tokens'' = Some (completion_tokens r') \<and>
          truthy (completion_tokens r'))"
proof (cases ch)
  case (JObj kvs)
  show ?thesis
  proof (cases "usage_block ch")
    case None
    with assms JObj show ?thesis by (simp add: usage_override_none)
  next
    case (Some u)
    then have u: "map_of kvs ''usage'' = Some u" "u \<noteq> JNull"
      using JObj by (auto simp: usage_block_def split: option.splits if_splits)
    show ?thesis
    proof (cases u)
      case (JObj us)
      with assms u \<open>ch = JObj kvs\<close> show ?thesis
        by (auto simp: usage_override_def usage_field_def usage_block_def Let_def
                 split: option.splits if_splits)
    qed (use assms u \<open>ch = JObj kvs\<close> in
          \<open>auto simp: usage_override_def Let_def split: if_splits\<close>)
  qed
qed (use assms in \<open>auto simp: usage_override_def\<close>)

lemma stream_estimate_completion:
  "completion_tokens (stream_estimate clk t0 v r) =
     JInt (max 1 (int (length (completion_text v)) div 4))"
  by (simp add: stream_estimate_def Let_def split: option.splits)

lemma after_stream_no_usage:
  assumes "last_chunk v = None \<or>
           (\<exists>kvs. last_chunk v = Some (JObj kvs) \<and> usage_block (JObj kvs) = None)"
  shows "\<exists>r' n. after_stream clk t0 v r = Inr (r', n) \<and>
           completion_tokens r' = JInt (max 1 (int (length (completion_text v)) div 4))"
  using assms
  by (auto simp: after_stream_def Let_def usage_override_none stream_estimate_completion)

lemma after_stream_completion:
  assumes "after_stream clk t0 v r = Inr (r', n)"
  shows "completion_tokens r' = JInt (max 1 (int (length (completion_text v)) div 4)) \<or>
         (\<exists>ch. last_chunk v = Some ch \<and>
               usage_field ch ''completion_tokens'' = Some (completion_tokens r') \<and>
               truthy (completion_tokens r'))"
proof (cases "last_chunk v")
  case None
  with assms show ?thesis
    by (auto simp: after_stream_def Let_def stream_estimate_completion)
next
  case (Some ch)
  show ?thesis
  proof (cases "truthy ch")
    case False
    with assms Some show ?thesis
      by (auto simp: after_stream_def Let_def stream_estimate_completion)
  next
    case True
    with assms Some have ov: "usage_override ch (stream_estimate clk t0 v r) = Inr r'"
      by (auto simp: after_stream_def Let_def split: sum.splits prod.splits)
    from usage_override_cases[OF ov] Some show ?thesis
      by (auto simp: stream_estimate_completion)
  qed
qed

lemma after_stream_usage:
  assumes "last_chunk v = Some ch"
    and "after_stream clk t0 v r = Inr (r', n) \<or> after_stream clk t0 v r = Inl (e, r', n)"
  shows "usage_field ch ''completion_tokens'' = Some c \<and> truthy c \<longrightarrow> completion_tokens r' = c"
    and "usage_field ch ''prompt_tokens'' = Some q \<and> truthy q \<longrightarrow> prompt_tokens r' = q"
proof -
  have ov: "\<exists>r3. usage_override ch r3 = Inr r' \<or> usage_override ch r3 = Inl (e, r')"
    if "usage_field ch key = Some x" for key x
  proof -
    from usage_field_dict[OF that] have "truthy ch" by auto
    with assms show ?thesis
      by (auto simp: after_stream_def Let_def split: sum.splits prod.splits)
  qed
  show "usage_field ch ''completion_tokens'' = Some c \<and> truthy c \<longrightarrow> completion_tokens r' = c"
    using ov usage_override_completion by blast
  show "usage_field ch ''prompt_tokens'' = Some q \<and> truthy q \<longrightarrow> prompt_tokens r' = q"
    using ov usage_override_prompt by blast
qed

text \<open>
  C1 (as amended). The code consults the usage block of one event only: the last event
  decoded before the body ends or the sentinel arrives (line 153, "try to get usage from
  last chunk"). When the body is read without an exception and that last event carries a
  usage block whose \<^verbatim>\<open>completion_tokens\<close> (respectively \<^verbatim>\<open>prompt_tokens\<close>) is a
  true value, the returned result holds that value in place of the estimate. A usage
  block in an earlier event is not looked at.
\<close>

theorem last_event_usage_overrides:
  assumes "resp_status resp = 200"
    and "body_read loads clk resp"
    and "events loads (resp_content resp) \<noteq> []"
  shows "(usage_field (last (events loads (resp_content resp))) ''completion_tokens'' = Some c
            \<and> truthy c \<longrightarrow>
          completion_tokens (send_request loads clk (Response resp) p True) = c) \<and>
         (usage_field (last (events loads (resp_content resp))) ''prompt_tokens'' = Some q
            \<and> truthy q \<longrightarrow>
          prompt_tokens (send_request loads clk (Response resp) p True) = q)"
proof -
  let ?ev = "last (events loads (resp_content resp))"
  let ?r = "send_request loads clk (Response resp) p True"
  from assms(2) obtain v where
    v: "stream_loop loads clk (resp_content resp) (resp_content_end resp) vars0 = Inr v"
    by (auto simp: body_read_def split: sum.splits)
  from stream_loop_Inr[OF v] assms(3) have lc: "last_chunk v = Some ?ev"
    by simp
  have "\<exists>r' n e. (after_stream clk (clk 0) v (new_result p) = Inr (r', n) \<or>
                  after_stream clk (clk 0) v (new_result p) = Inl (e, r', n)) \<and>
                 completion_tokens ?r = completion_tokens r' \<and>
                 prompt_tokens ?r = prompt_tokens r'"
  proof (cases "after_stream clk (clk 0) v (new_result p)")
    case (Inl x)
    obtain e r' n where x: "x = (e, r', n)" by (cases x)
    with Inl v assms(1) have "try_body loads clk (Response resp) True (new_result p) = Inl (e, r', n)"
      by (simp add: try_body_stream)
    from send_request_fields(2)[OF this] Inl x show ?thesis by auto
  next
    case (Inr rn)
    obtain r' n where rn: "rn = (r', n)" by (cases rn)
    show ?thesis
    proof (cases "set_rate (r', n)")
      case (Inl y)
      obtain e r2 n2 where y: "y = (e, r2, n2)" by (cases y)
      with Inl set_rate_Inl[of r' n e r2 n2] have y': "set_rate (r', n) = Inl (e, r', n)" by simp
      with Inr rn v assms(1)
      have "try_body loads clk (Response resp) True (new_result p) = Inl (e, r', n)"
        by (simp add: try_body_stream)
      from send_request_fields(2)[OF this] Inr rn show ?thesis by auto
    next
      case (Inr r2)
      with \<open>after_stream clk (clk 0) v (new_result p) = Inr rn\<close> rn v assms(1)
      have "try_body loads clk (Response resp) True (new_result p) = Inr r2"
        by (simp add: try_body_stream)
      from send_request_fields(1)[OF this] set_rate_Inr[OF Inr]
        \<open>after_stream clk (clk 0) v (new_result p) = Inr rn\<close> rn
      show ?thesis by auto
    qed
  qed
  then obtain r' n e where
    a: "after_stream clk (clk 0) v (new_result p) = Inr (r', n) \<or>
        after_stream clk (clk 0) v (new_result p) = Inl (e, r', n)"
    and c: "completion_tokens ?r = completion_tokens r'"
    and q: "prompt_tokens ?r = prompt_tokens r'"
    by blast
  from after_stream_usage(1)[OF lc a, where c = c] after_stream_usage(2)[OF lc a, where q = q] c q
  show ?thesis by simp
qed

text \<open>The round trip of the specification: "Hel", "lo", then a usage block with 5.\<close>

theorem last_event_usage_overrides_witness:
  "resp_status (streamed [line_hel, line_lo, line_usage5, line_done]) = 200 \<and>
   body_read sample_loads seconds (streamed [line_hel, line_lo, line_usage5, line_done]) \<and>
   events sample_loads (resp_content (streamed [line_hel, line_lo, line_usage5, line_done])) =
     [content_event ''Hel'', content_event ''lo'', usage_event 5] \<and>
   completion_tokens
     (send_request sample_loads seconds
        (Response (streamed [line_hel, line_lo, line_usage5, line_done])) ''q'' True) = JInt 5"
proof -
  let ?resp = "streamed [line_hel, line_lo, line_usage5, line_done]"
  have h1: "resp_status ?resp = 200" by (simp add: streamed_def)
  have h2: "body_read sample_loads seconds ?resp" by code_simp
  have ev: "events sample_loads (resp_content ?resp) =
              [content_event ''Hel'', content_event ''lo'', usage_event 5]"
    by code_simp
  then have h3: "events sample_loads (resp_content ?resp) \<noteq> []" by simp
  have u: "usage_field (usage_event 5) ''completion_tokens'' = Some (JInt 5)" by code_simp
  from last_event_usage_overrides[OF h1 h2 h3, of "JInt 5" "''q''" JNull] u ev h1 h2
  show ?thesis by simp
qed

text \<open>
  C1 as stated fails: a usage block with \<^verbatim>\<open>completion_tokens\<close> 5 in the first
  event, followed by the content events "Hel" and "lo", leaves the estimate
  \<open>max 1 (5 div 4) = 1\<close> in the result.
\<close>

theorem usage_in_earlier_event_ignored:
  "events sample_loads [line_usage5, line_hel, line_lo, line_done] =
     [usage_event 5, content_event ''Hel'', content_event ''lo''] \<and>
   usage_field (usage_event 5) ''completion_tokens'' = Some (JInt 5) \<and>
   status (send_request sample_loads seconds
             (Response (streamed [line_usage5, line_hel, line_lo, line_done])) ''q'' True) = ''ok'' \<and>
   completion_tokens
     (send_request sample_loads seconds
        (Response (streamed [line_usage5, line_hel, line_lo, line_done])) ''q'' True) = JInt 1"
  by code_simp

text \<open>
  C2. A streamed request that ends with status \<^verbatim>\<open>ok\<close> and whose events carry no
  usage block has \<^verbatim>\<open>completion_tokens = max(1, len(text) // 4)\<close>, where the text is the
  concatenation of the content deltas of its events; a text of 17 characters gives 4.
\<close>

theorem fallback_token_estimate:
  assumes "status (send_request loads clk (Response resp) p True) = ''ok''"
    and "\<forall>ev \<in> set (events loads (resp_content resp)). usage_block ev = None"
  shows "completion_tokens (send_request loads clk (Response resp) p True) =
           JInt (max 1 (int (length (concat (map delta_content
                                              (events loads (resp_content resp))))) div 4)) \<and>
         (length (concat (map delta_content (events loads (resp_content resp)))) = 17 \<longrightarrow>
          completion_tokens (send_request loads clk (Response resp) p True) = JInt 4)"
proof -
  let ?evs = "events loads (resp_content resp)"
  let ?r = "send_request loads clk (Response resp) p True"
  from assms(1) obtain v r3 n where
    v: "stream_loop loads clk (resp_content resp) (resp_content_end resp) vars0 = Inr v"
    and a: "after_stream clk (clk 0) v (new_result p) = Inr (r3, n)"
    and s: "set_rate (r3, n) = Inr ?r"
    by (rule ok_stream_parts)
  from stream_loop_Inr[OF v] have
    ctext: "completion_text v = concat (map delta_content ?evs)"
    and lc: "last_chunk v = (if ?evs = [] then None else Some (last ?evs))"
    and dicts: "\<forall>ev \<in> set ?evs. \<exists>kvs. ev = JObj kvs"
    by (simp_all add: vars0_def)
  have "last_chunk v = None \<or>
        (\<exists>kvs. last_chunk v = Some (JObj kvs) \<and> usage_block (JObj kvs) = None)"
  proof (cases "?evs = []")
    case True
    with lc show ?thesis by simp
  next
    case False
    then have mem: "last ?evs \<in> set ?evs" by simp
    with dicts obtain kvs where kvs: "last ?evs = JObj kvs" by blast
    from mem assms(2) have "usage_block (last ?evs) = None" by blast
    with kvs lc False show ?thesis by simp
  qed
  from after_stream_no_usage[OF this, of clk "clk 0" "new_result p"] a
  have "completion_tokens r3 = JInt (max 1 (int (length (completion_text v)) div 4))"
    by auto
  with set_rate_Inr[OF s] ctext
  have main: "completion_tokens ?r = JInt (max 1 (int (length (concat (map delta_content ?evs))) div 4))"
    by simp
  then show ?thesis by simp
qed

text \<open>A body whose only delta has 17 characters.\<close>

theorem fallback_token_estimate_witness:
  "status (send_request sample_loads seconds (Response (streamed [line_17, line_done])) ''q'' True)
     = ''ok'' \<and>
   length (concat (map delta_content (events sample_loads (resp_content (streamed [line_17, line_done])))))
     = 17 \<and>
   completion_tokens
     (send_request sample_loads seconds (Response (streamed [line_17, line_done])) ''q'' True) = JInt 4"
proof -
  let ?resp = "streamed [line_17, line_done]"
  have h1: "status (send_request sample_loads seconds (Response ?resp) ''q'' True) = ''ok''"
    by code_simp
  have ev: "events sample_loads (resp_content ?resp) = [content_event ''seventeen chars!!'']"
    by code_simp
  have ub: "usage_block (content_event ''seventeen chars!!'') = None" by code_simp
  have h2: "\<forall>ev \<in> set (events sample_loads (resp_content ?resp)). usage_block ev = None"
    using ev ub by simp
  have len: "length (concat (map delta_content (events sample_loads (resp_content ?resp)))) = 17"
    by code_simp
  from fallback_token_estimate[OF h1 h2] len h1 show ?thesis by simp
qed

text \<open>
  C10 (as amended). A streamed request that ends with status \<^verbatim>\<open>ok\<close> has a
  \<^verbatim>\<open>completion_tokens\<close> that is a true value, so never 0: it is either the estimate
  \<^verbatim>\<open>max(1, len(text) // 4)\<close>, which is at least 1, or the value that the usage block of
  the last event reports, stored as received. Without any event it is 1.
\<close>

theorem streamed_ok_completion_tokens:
  assumes "status (send_request loads clk (Response resp) p True) = ''ok''"
  shows "truthy (completion_tokens (send_request loads clk (Response resp) p True)) \<and>
         (completion_tokens (send_request loads clk (Response resp) p True) =
            JInt (max 1 (int (length (concat (map delta_content
                                               (events loads (resp_content resp))))) div 4))
          \<or> (events loads (resp_content resp) \<noteq> [] \<and>
             usage_field (last (events loads (resp_content resp))) ''completion_tokens'' =
               Some (completion_tokens (send_request loads clk (Response resp) p True)))) \<and>
         (events loads (resp_content resp) = [] \<longrightarrow>
          completion_tokens (send_request loads clk (Response resp) p True) = JInt 1)"
proof -
  let ?evs = "events loads (resp_content resp)"
  let ?r = "send_request loads clk (Response resp) p True"
  let ?est = "JInt (max 1 (int (length (concat (map delta_content ?evs))) div 4))"
  from assms(1) obtain v r3 n where
    v: "stream_loop loads clk (resp_content resp) (resp_content_end resp) vars0 = Inr v"
    and a: "after_stream clk (clk 0) v (new_result p) = Inr (r3, n)"
    and s: "set_rate (r3, n) = Inr ?r"
    by (rule ok_stream_parts)
  from stream_loop_Inr[OF v] have
    ctext: "completion_text v = concat (map delta_content ?evs)"
    and lc: "last_chunk v = (if ?evs = [] then None else Some (last ?evs))"
    by (simp_all add: vars0_def)
  from set_rate_Inr[OF s] have eq: "completion_tokens ?r = completion_tokens r3" by simp
  from after_stream_completion[OF a] ctext lc eq
  have disj: "completion_tokens ?r = ?est \<or>
        (?evs \<noteq> [] \<and> usage_field (last ?evs) ''completion_tokens'' = Some (completion_tokens ?r)
         \<and> truthy (completion_tokens ?r))"
    by (auto split: if_splits)
  have est: "truthy ?est" by simp
  from disj est have t: "truthy (completion_tokens ?r)" by metis
  from disj have e: "?evs = [] \<longrightarrow> completion_tokens ?r = JInt 1" by auto
  from disj t e show ?thesis by blast
qed

text \<open>A body that holds the sentinel only.\<close>

theorem streamed_ok_completion_tokens_witness:
  "status (send_request sample_loads seconds (Response (streamed [line_done])) ''q'' True) = ''ok'' \<and>
   events sample_loads (resp_content (streamed [line_done])) = [] \<and>
   completion_tokens (send_request sample_loads seconds (Response (streamed [line_done])) ''q'' True)
     = JInt 1"
proof -
  let ?resp = "streamed [line_done]"
  have h1: "status (send_request sample_loads seconds (Response ?resp) ''q'' True) = ''ok''"
    by code_simp
  have ev: "events sample_loads (resp_content ?resp) = []" by code_simp
  from streamed_ok_completion_tokens[OF h1] ev h1 show ?thesis by simp
qed

text \<open>
  C10 as stated fails: a true usage value is stored whatever it is, so a last event that
  reports \<^verbatim>\<open>completion_tokens\<close> -3 gives a result with status \<^verbatim>\<open>ok\<close> and
  \<^verbatim>\<open>completion_tokens\<close> -3.
\<close>

theorem negative_usage_counterexample:
  "status (send_request sample_loads seconds
             (Response (streamed [line_hel, line_usage_neg, line_done])) ''q'' True) = ''ok'' \<and>
   completion_tokens
     (send_request sample_loads seconds
        (Response (streamed [line_hel, line_usage_neg, line_done])) ''q'' True) = JInt (- 3)"
  by code_simp

section \<open>Properties of the summary\<close>

lemma num_add_number:
  assumes "acc = JInt a \<or> acc = JFloat b" and "is_number x"
  shows "\<exists>acc'. num_add rnd acc x = Inr acc' \<and> ((\<exists>a'. acc' = JInt a') \<or> (\<exists>b'. acc' = JFloat b'))"
  using assms by (cases x) auto

lemma num_add_fails:
  assumes "acc = JInt a \<or> acc = JFloat b" and "\<not> is_number x"
  shows "\<exists>m. num_add rnd acc x = Inl (TypeError m)"
  using assms by (cases x) auto

lemma num_add_int:
  assumes "is_number x" and "\<not> is_float x"
  shows "num_add rnd (JInt a) x = Inr (JInt (a + int_val x))"
  using assms by (cases x) auto

lemma sum_from_cases:
  assumes "acc = JInt a \<or> acc = JFloat b"
  shows "(filter (\<lambda>x. \<not> is_number x) xs = [] \<longrightarrow>
            (\<exists>c. sum_from rnd acc xs = Inr c \<and> ((\<exists>a'. c = JInt a') \<or> (\<exists>b'. c = JFloat b')))) \<and>
         (filter (\<lambda>x. \<not> is_number x) xs \<noteq> [] \<longrightarrow> (\<exists>m. sum_from rnd acc xs = Inl (TypeError m)))"
  using assms
proof (induction xs arbitrary: acc a b)
  case Nil
  then show ?case by auto
next
  case (Cons x xs)
  show ?case
  proof (cases "is_number x")
    case True
    from num_add_number[OF Cons.prems True, of rnd] obtain acc' where
      acc': "num_add rnd acc x = Inr acc'" "(\<exists>a'. acc' = JInt a') \<or> (\<exists>b'. acc' = JFloat b')"
      by blast
    then obtain a' b' where "acc' = JInt a' \<or> acc' = JFloat b'" by blast
    from Cons.IH[OF this] acc'(1) True show ?thesis by simp
  next
    case False
    from num_add_fails[OF Cons.prems False, of rnd] show ?thesis using False by auto
  qed
qed

lemma sum_from_ints:
  assumes "filter (\<lambda>x. \<not> is_number x) xs = []" and "filter is_float xs = []"
  shows "sum_from rnd (JInt a) xs = Inr (JInt (a + sum_list (map int_val xs)))"
  using assms
proof (induction xs arbitrary: a)
  case Nil
  then show ?case by simp
next
  case (Cons x xs)
  from Cons.prems have x: "is_number x" "\<not> is_float x"
    and rest: "filter (\<lambda>x. \<not> is_number x) xs = []" "filter is_float xs = []"
    by (auto split: if_splits)
  from Cons.IH[OF rest] num_add_int[OF x] show ?case by (simp add: add.assoc)
qed

lemma py_sum_cases:
  "(filter (\<lambda>x. \<not> is_number x) xs = [] \<longrightarrow>
      (\<exists>c. py_sum rnd xs = Inr c \<and> ((\<exists>a'. c = JInt a') \<or> (\<exists>b'. c = JFloat b')))) \<and>
   (filter (\<lambda>x. \<not> is_number x) xs \<noteq> [] \<longrightarrow> (\<exists>m. py_sum rnd xs = Inl (TypeError m)))"
  unfolding py_sum_def by (rule sum_from_cases) simp

lemma py_sum_numeric:
  "py_sum rnd xs = Inr c \<Longrightarrow> (\<exists>a. c = JInt a) \<or> (\<exists>b. c = JFloat b)"
  using py_sum_cases[of xs rnd]
  by (cases "filter (\<lambda>x. \<not> is_number x) xs = []") auto

lemma py_sum_error: "py_sum rnd xs = Inl e \<Longrightarrow> \<exists>m. e = TypeError m"
  using py_sum_cases[of xs rnd]
  by (cases "filter (\<lambda>x. \<not> is_number x) xs = []") auto

lemma py_sum_perm:
  assumes "mset xs = mset ys" and "filter is_float xs = []"
  shows "(py_sum rnd xs = Inr c \<longrightarrow> py_sum rnd ys = Inr c) \<and>
         (py_sum rnd xs = Inl e \<longrightarrow> (\<exists>e'. py_sum rnd ys = Inl e'))"
proof -
  from assms(1) have "mset (filter (\<lambda>x. \<not> is_number x) xs) = mset (filter (\<lambda>x. \<not> is_number x) ys)"
    and "mset (filter is_float xs) = mset (filter is_float ys)"
    by simp_all
  then have n: "filter (\<lambda>x. \<not> is_number x) xs = [] \<longleftrightarrow> filter (\<lambda>x. \<not> is_number x) ys = []"
    and f: "filter is_float xs = [] \<longleftrightarrow> filter is_float ys = []"
    by (metis mset_zero_iff)+
  from assms(1) have "mset (map int_val xs) = mset (map int_val ys)" by simp
  then have s: "sum_list (map int_val xs) = sum_list (map int_val ys)"
    by (metis sum_mset_sum_list)
  show ?thesis
  proof (cases "filter (\<lambda>x. \<not> is_number x) xs = []")
    case True
    with n f assms(2) sum_from_ints[of xs rnd 0] sum_from_ints[of ys rnd 0] s
    show ?thesis by (simp add: py_sum_def)
  next
    case False
    with n py_sum_cases[of xs rnd] py_sum_cases[of ys rnd] show ?thesis by auto
  qed
qed

lemma float_sum_exact: "float_sum (\<lambda>x. x) xs = sum_list xs"
proof (cases xs)
  case Nil
  then show ?thesis by simp
next
  case (Cons x ys)
  have "foldl (+) a ys = a + sum_list ys" for a :: real
    by (induction ys arbitrary: a) (simp_all add: add.assoc)
  with Cons show ?thesis by simp
qed

lemma report_unfold:
  "run_bench_report rnd rs wall =
     (if ok_results rs = [] then Inr AllFailed
      else
        (case py_sum rnd (map completion_tokens (ok_results rs)) of
           Inl e \<Rightarrow> Inl e
         | Inr tcomp \<Rightarrow>
        (case py_sum rnd (map prompt_tokens (ok_results rs)) of
           Inl e \<Rightarrow> Inl e
         | Inr tprompt \<Rightarrow>
        (case (if wall \<noteq> 0 then num_div rnd tcomp wall else Inr 0) of
           Inl e \<Rightarrow> Inl e
         | Inr agg \<Rightarrow>
             Inr (Summary
               \<lparr>n_ok = length (ok_results rs), errs = length rs - length (ok_results rs),
                total_comp = tcomp, total_prompt = tprompt,
                avg_tps = rnd (float_sum rnd (map tokens_per_sec (ok_results rs))
                               / to_float rnd (int (length (ok_results rs)))),
                aggregate_tps = agg,
                avg_ttft = rnd (float_sum rnd (filter (\<lambda>t. t \<noteq> 0) (map ttft_ms (ok_results rs)))
                   / to_float rnd (int (max 1 (length (filter (\<lambda>t. t \<noteq> 0)
                                                        (map ttft_ms (ok_results rs))))))),
                p50 = sort (map tokens_per_sec (ok_results rs)) ! (length (ok_results rs) div 2),
                fastest = Max (set (map tokens_per_sec (ok_results rs))),
                slowest = Min (set (map tokens_per_sec (ok_results rs)))\<rparr>)))))"
  by (auto simp: run_bench_report_def ok_results_def Let_def float_div_def list_item_def
                 py_max_def py_min_def
           split: sum.splits)

lemma num_div_numeric:
  "(\<exists>a. c = JInt a) \<or> (\<exists>b. c = JFloat b) \<Longrightarrow> wall \<noteq> 0 \<Longrightarrow> \<exists>q. num_div rnd c wall = Inr q"
  by auto

lemma perm_facts:
  fixes g :: "'a \<Rightarrow> real"
  assumes "mset xs = mset ys"
  shows "length xs = length ys"
    and "sort (map g xs) = sort (map g ys)"
    and "set (map g xs) = set (map g ys)"
    and "length (filter Q (map g xs)) = length (filter Q (map g ys))"
    and "mset (map g xs) = mset (map g ys)"
    and "mset (filter Q (map g xs)) = mset (filter Q (map g ys))"
proof -
  show "length xs = length ys" using assms by (rule mset_eq_length)
  show m: "mset (map g xs) = mset (map g ys)"
    using assms by simp
  show "sort (map g xs) = sort (map g ys)"
    using m by (metis mset_sort sorted_sort properties_for_sort)
  show "set (map g xs) = set (map g ys)"
    using m by (rule mset_eq_setD)
  show mf: "mset (filter Q (map g xs)) = mset (filter Q (map g ys))"
    using m by simp
  show "length (filter Q (map g xs)) = length (filter Q (map g ys))"
    using mf by (rule mset_eq_length)
qed

lemma ok_results_perm: "mset rs = mset rs' \<Longrightarrow> mset (ok_results rs) = mset (ok_results rs')"
  by (simp add: ok_results_def)

lemma float_sum_exact_perm:
  assumes "mset xs = mset ys" and "\<forall>x. rnd x = x"
  shows "float_sum rnd xs = float_sum rnd ys"
proof -
  from assms(2) have "rnd = (\<lambda>x. x)" by auto
  moreover from assms(1) have "sum_list xs = sum_list ys" by (metis sum_mset_sum_list)
  ultimately show ?thesis by (simp add: float_sum_exact)
qed

text \<open>
  C6 (as amended). Let the token counts of the \<^verbatim>\<open>ok\<close> results hold no float, and
  let the rates be numbers, as they are in this model. If a list of results yields a
  summary, every permutation of it yields a summary with the same counts and token
  totals, the same aggregate tokens per second, median, fastest and slowest; if it yields
  "all requests failed", or raises, so does every permutation. The average tokens per
  second is the float sum of the rates in the order of the list, divided by their number:
  it is the same for two orders whenever the two float sums are, as they are when no
  operation rounds.
\<close>

theorem report_permutation:
  assumes "mset rs = mset rs'" and "filter is_float (token_counts rs) = []"
  shows "(run_bench_report rnd rs wall = Inr AllFailed \<longrightarrow>
            run_bench_report rnd rs' wall = Inr AllFailed) \<and>
         (\<forall>s. run_bench_report rnd rs wall = Inr (Summary s) \<longrightarrow>
            (\<exists>s'. run_bench_report rnd rs' wall = Inr (Summary s') \<and>
                  n_ok s' = n_ok s \<and> errs s' = errs s \<and>
                  total_comp s' = total_comp s \<and> total_prompt s' = total_prompt s \<and>
                  aggregate_tps s' = aggregate_tps s \<and> p50 s' = p50 s \<and>
                  fastest s' = fastest s \<and> slowest s' = slowest s \<and>
                  (float_sum rnd (map tokens_per_sec (ok_results rs')) =
                     float_sum rnd (map tokens_per_sec (ok_results rs)) \<longrightarrow>
                   avg_tps s' = avg_tps s) \<and>
                  ((\<forall>x. rnd x = x) \<longrightarrow> avg_tps s' = avg_tps s))) \<and>
         (\<forall>e. run_bench_report rnd rs wall = Inl e \<longrightarrow>
            (\<exists>e'. run_bench_report rnd rs' wall = Inl e'))"
proof -
  let ?ok = "ok_results rs" and ?ok' = "ok_results rs'"
  have ok: "mset ?ok = mset ?ok'" using assms(1) by (rule ok_results_perm)
  then have nil: "?ok = [] \<longleftrightarrow> ?ok' = []" by (metis mset_zero_iff)
  have len: "length rs = length rs'" using assms(1) by (rule mset_eq_length)
  have mc: "mset (map completion_tokens ?ok) = mset (map completion_tokens ?ok')"
    and mp: "mset (map prompt_tokens ?ok) = mset (map prompt_tokens ?ok')"
    using ok by simp_all
  from assms(2) have fc: "filter is_float (map completion_tokens ?ok) = []"
    and fp: "filter is_float (map prompt_tokens ?ok) = []"
    by (simp_all add: token_counts_def)
  note pc = py_sum_perm[OF mc fc, of rnd] and pp = py_sum_perm[OF mp fp, of rnd]
  note f = perm_facts[OF ok]
  have ex: "float_sum rnd (map tokens_per_sec ?ok') = float_sum rnd (map tokens_per_sec ?ok)"
    if "\<forall>x. rnd x = x"
    using float_sum_exact_perm[OF f(5)[of tokens_per_sec] that] by simp
  show ?thesis
  proof (cases "?ok = []")
    case True
    with nil show ?thesis by (simp add: report_unfold)
  next
    case False
    with nil have ne': "?ok' \<noteq> []" by simp
    show ?thesis
    proof (cases "py_sum rnd (map completion_tokens ?ok)")
      case (Inl e)
      with pc obtain e' where "py_sum rnd (map completion_tokens ?ok') = Inl e'" by blast
      with Inl False ne' show ?thesis by (simp add: report_unfold)
    next
      case c: (Inr tcomp)
      with pc have c': "py_sum rnd (map completion_tokens ?ok') = Inr tcomp" by blast
      show ?thesis
      proof (cases "py_sum rnd (map prompt_tokens ?ok)")
        case (Inl e)
        with pp obtain e' where "py_sum rnd (map prompt_tokens ?ok') = Inl e'" by blast
        with Inl c c' False ne' show ?thesis by (simp add: report_unfold)
      next
        case p: (Inr tprompt)
        with pp have p': "py_sum rnd (map prompt_tokens ?ok') = Inr tprompt" by blast
        show ?thesis
        proof (cases "if wall \<noteq> 0 then num_div rnd tcomp wall else Inr 0")
          case (Inl e)
          with c c' p p' False ne' show ?thesis by (simp add: report_unfold)
        next
          case (Inr agg)
          with c c' p p' False ne' len f(1) f(2)[of tokens_per_sec] f(3)[of tokens_per_sec] ex
          show ?thesis
            by (simp add: report_unfold)
        qed
      qed
    qed
  qed
qed

text \<open>The summary of three results in two orders, with the rounding of binary64.\<close>

lemma report_abc:
  "run_bench_report round_double [result_a, result_b, result_c] 10 =
     Inr (Summary \<lparr>n_ok = 3, errs = 0, total_comp = JInt 5, total_prompt = JInt 0,
                   avg_tps = 7205759403792795 / 2 ^ 55, aggregate_tps = 1 / 2, avg_ttft = 0,
                   p50 = 3602879701896397 / 2 ^ 54, fastest = 5404319552844595 / 2 ^ 54,
                   slowest = 3602879701896397 / 2 ^ 55\<rparr>)"
  by code_simp

lemma report_cba:
  "run_bench_report round_double [result_c, result_b, result_a] 10 =
     Inr (Summary \<lparr>n_ok = 3, errs = 0, total_comp = JInt 5, total_prompt = JInt 0,
                   avg_tps = 7205759403792793 / 2 ^ 55, aggregate_tps = 1 / 2, avg_ttft = 0,
                   p50 = 3602879701896397 / 2 ^ 54, fastest = 5404319552844595 / 2 ^ 54,
                   slowest = 3602879701896397 / 2 ^ 55\<rparr>)"
  by code_simp

text \<open>The same three results: what the reverse order has in common with the first.\<close>

theorem report_permutation_witness:
  "mset [result_a, result_b, result_c] = mset [result_c, result_b, result_a] \<and>
   filter is_float (token_counts [result_a, result_b, result_c]) = [] \<and>
   (\<exists>s'. run_bench_report round_double [result_c, result_b, result_a] 10 = Inr (Summary s') \<and>
         n_ok s' = 3 \<and> errs s' = 0 \<and> total_comp s' = JInt 5 \<and> aggregate_tps s' = 1 / 2 \<and>
         p50 s' = 3602879701896397 / 2 ^ 54 \<and> fastest s' = 5404319552844595 / 2 ^ 54 \<and>
         slowest s' = 3602879701896397 / 2 ^ 55)"
proof -
  have m: "mset [result_a, result_b, result_c] = mset [result_c, result_b, result_a]"
    by simp
  have h: "filter is_float (token_counts [result_a, result_b, result_c]) = []"
    by code_simp
  from report_permutation[OF m h, of round_double 10] report_abc m h show ?thesis
    by fastforce
qed

text \<open>
  C6 as stated fails for the average. With the rounding of binary64, the rates that Python
  writes \<^verbatim>\<open>0.1\<close>, \<^verbatim>\<open>0.2\<close>, \<^verbatim>\<open>0.3\<close> sum to \<^verbatim>\<open>0.6000000000000001\<close> in this
  order and to \<^verbatim>\<open>0.6\<close> in the reverse order, so that the averages are
  \<^verbatim>\<open>0.20000000000000004\<close> and \<^verbatim>\<open>0.19999999999999998\<close>; every other figure agrees.
\<close>

theorem float_sum_order_counterexample:
  "mset [result_a, result_b, result_c] = mset [result_c, result_b, result_a] \<and>
   run_bench_report round_double [result_a, result_b, result_c] 10 =
     Inr (Summary \<lparr>n_ok = 3, errs = 0, total_comp = JInt 5, total_prompt = JInt 0,
                   avg_tps = 7205759403792795 / 2 ^ 55, aggregate_tps = 1 / 2, avg_ttft = 0,
                   p50 = 3602879701896397 / 2 ^ 54, fastest = 5404319552844595 / 2 ^ 54,
                   slowest = 3602879701896397 / 2 ^ 55\<rparr>) \<and>
   run_bench_report round_double [result_c, result_b, result_a] 10 =
     Inr (Summary \<lparr>n_ok = 3, errs = 0, total_comp = JInt 5, total_prompt = JInt 0,
                   avg_tps = 7205759403792793 / 2 ^ 55, aggregate_tps = 1 / 2, avg_ttft = 0,
                   p50 = 3602879701896397 / 2 ^ 54, fastest = 5404319552844595 / 2 ^ 54,
                   slowest = 3602879701896397 / 2 ^ 55\<rparr>) \<and>
   (7205759403792795 / 2 ^ 55 :: real) \<noteq> 7205759403792793 / 2 ^ 55"
proof -
  have m: "mset [result_a, result_b, result_c] = mset [result_c, result_b, result_a]"
    by simp
  have c: "(7205759403792795 / 2 ^ 55 :: real) \<noteq> 7205759403792793 / 2 ^ 55" by simp
  from m report_abc report_cba c show ?thesis by blast
qed

text \<open>
  C7. Whenever there is an \<^verbatim>\<open>ok\<close> result and the token counts of the \<^verbatim>\<open>ok\<close>
  results are numbers, a summary is reported; and the median of every reported summary is
  the element at index \<open>length ok div 2\<close> of the ascending per-request rates, which is
  within the list. For the rates 10, 20, 30, 40 it is 30. This holds whatever the rounding
  of the float operations is.
\<close>

theorem median_convention:
  "(ok_results rs \<noteq> [] \<and>
      filter (\<lambda>r. \<not> is_number (completion_tokens r) \<or> \<not> is_number (prompt_tokens r)) (ok_results rs) = []
      \<longrightarrow> (\<exists>s. run_bench_report rnd rs wall = Inr (Summary s))) \<and>
   (\<forall>s. run_bench_report rnd rs wall = Inr (Summary s) \<longrightarrow>
      length (ok_results rs) div 2 < length (sort (map tokens_per_sec (ok_results rs))) \<and>
      p50 s = sort (map tokens_per_sec (ok_results rs)) ! (length (ok_results rs) div 2) \<and>
      (sort (map tokens_per_sec (ok_results rs)) = [10, 20, 30, 40] \<longrightarrow> p50 s = 30))"
proof (intro conjI allI impI)
  assume h: "ok_results rs \<noteq> [] \<and>
      filter (\<lambda>r. \<not> is_number (completion_tokens r) \<or> \<not> is_number (prompt_tokens r)) (ok_results rs) = []"
  then have "filter (\<lambda>x. \<not> is_number x) (map completion_tokens (ok_results rs)) = []"
    and "filter (\<lambda>x. \<not> is_number x) (map prompt_tokens (ok_results rs)) = []"
    by (auto simp: filter_empty_conv)
  with py_sum_cases[of "map completion_tokens (ok_results rs)" rnd]
    py_sum_cases[of "map prompt_tokens (ok_results rs)" rnd]
  obtain c q where c: "py_sum rnd (map completion_tokens (ok_results rs)) = Inr c"
    and q: "py_sum rnd (map prompt_tokens (ok_results rs)) = Inr q"
    by blast
  have "\<exists>a. (if wall \<noteq> 0 then num_div rnd c wall else Inr 0) = Inr a"
    using num_div_numeric[OF py_sum_numeric[OF c]] by simp
  then obtain a where "(if wall \<noteq> 0 then num_div rnd c wall else Inr 0) = Inr a" ..
  with c q h show "\<exists>s. run_bench_report rnd rs wall = Inr (Summary s)"
    by (simp add: report_unfold)
next
  fix s assume s: "run_bench_report rnd rs wall = Inr (Summary s)"
  then have ne: "ok_results rs \<noteq> []"
    by (auto simp: report_unfold split: if_splits)
  then show "length (ok_results rs) div 2 < length (sort (map tokens_per_sec (ok_results rs)))"
    by simp
  from s ne show p: "p50 s = sort (map tokens_per_sec (ok_results rs)) ! (length (ok_results rs) div 2)"
    by (auto simp: report_unfold split: sum.splits if_splits)
  assume l: "sort (map tokens_per_sec (ok_results rs)) = [10, 20, 30, 40]"
  then have "length (sort (map tokens_per_sec (ok_results rs))) = 4" by simp
  then have "length (ok_results rs) = 4" by simp
  with p l show "p50 s = 30" by simp
qed

text \<open>Four \<^verbatim>\<open>ok\<close> results with the rates 30, 10, 40, 20 and one error.\<close>

theorem median_convention_witness:
  "ok_results [ok_result 30 3, error_result, ok_result 10 1, ok_result 40 4, ok_result 20 2]
     = [ok_result 30 3, ok_result 10 1, ok_result 40 4, ok_result 20 2] \<and>
   sort (map tokens_per_sec
      (ok_results [ok_result 30 3, error_result, ok_result 10 1, ok_result 40 4, ok_result 20 2]))
     = [10, 20, 30, 40] \<and>
   (\<exists>s. run_bench_report round_double
           [ok_result 30 3, error_result, ok_result 10 1, ok_result 40 4, ok_result 20 2] 2
         = Inr (Summary s) \<and> p50 s = 30)"
proof -
  let ?rs = "[ok_result 30 3, error_result, ok_result 10 1, ok_result 40 4, ok_result 20 2]"
  have ok: "ok_results ?rs = [ok_result 30 3, ok_result 10 1, ok_result 40 4, ok_result 20 2]"
    by code_simp
  have srt: "sort (map tokens_per_sec (ok_results ?rs)) = [10, 20, 30, 40]"
    by code_simp
  have num: "filter (\<lambda>r. \<not> is_number (completion_tokens r) \<or> \<not> is_number (prompt_tokens r))
               (ok_results ?rs) = []"
    by code_simp
  from median_convention[of ?rs round_double 2] ok num obtain s where
    s: "run_bench_report round_double ?rs 2 = Inr (Summary s)"
    by auto
  with median_convention[of ?rs round_double 2] srt have "p50 s = 30" by blast
  with s ok srt show ?thesis by blast
qed

text \<open>
  C9. If every result has status \<^verbatim>\<open>error\<close>, the outcome is "all requests failed" and
  no figure is computed. For no list of results at all does the report raise
  \<^verbatim>\<open>ZeroDivisionError\<close>. This holds whatever the rounding of the float operations is.
\<close>

theorem all_failed_no_summary:
  "((\<forall>r \<in> set rs. status r = ''error'') \<longrightarrow> run_bench_report rnd rs wall = Inr AllFailed) \<and>
   (\<forall>m. run_bench_report rnd rs wall \<noteq> Inl (ZeroDivisionError m))"
proof
  show "(\<forall>r \<in> set rs. status r = ''error'') \<longrightarrow> run_bench_report rnd rs wall = Inr AllFailed"
  proof
    assume "\<forall>r \<in> set rs. status r = ''error''"
    then have "ok_results rs = []"
      by (auto simp: ok_results_def filter_empty_conv)
    then show "run_bench_report rnd rs wall = Inr AllFailed" by (simp add: report_unfold)
  qed
  show "\<forall>m. run_bench_report rnd rs wall \<noteq> Inl (ZeroDivisionError m)"
  proof (intro allI notI)
    fix m assume z: "run_bench_report rnd rs wall = Inl (ZeroDivisionError m)"
    show False
    proof (cases "py_sum rnd (map completion_tokens (ok_results rs))")
      case (Inl e)
      with py_sum_error[OF Inl] z show False
        by (auto simp: report_unfold split: if_splits)
    next
      case c: (Inr tcomp)
      show False
      proof (cases "py_sum rnd (map prompt_tokens (ok_results rs))")
        case (Inl e)
        with py_sum_error[OF Inl] z c show False
          by (auto simp: report_unfold split: if_splits)
      next
        case (Inr tprompt)
        with z c py_sum_numeric[OF c] show False
          by (auto simp: report_unfold split: if_splits)
      qed
    qed
  qed
qed

text \<open>A batch of two timeouts.\<close>

theorem all_failed_no_summary_witness:
  "status error_result = ''error'' \<and>
   run_bench_report round_double [error_result, error_result] 2 = Inr AllFailed"
proof -
  have s: "status error_result = ''error''" by (simp add: error_result_def)
  then have h: "\<forall>r \<in> set [error_result, error_result]. status r = ''error''" by simp
  with all_failed_no_summary[of "[error_result, error_result]" round_double 2] s show ?thesis by blast
qed

section \<open>Properties of the orchestrator\<close>








lemma find_task:
  assumes "filter P ts \<noteq> []"
  shows "\<exists>xs t ys. ts = xs @ t # ys \<and> P t"
proof -
  from assms obtain t where "t \<in> set ts" "P t" by (auto simp: filter_empty_conv)
  then show ?thesis by (auto dest!: split_list)
qed

lemma task_shapes:
  "is_waiting t \<Longrightarrow> \<exists>p. t = Waiting p"
  "is_running t \<Longrightarrow> \<exists>p. t = Running p"
  "is_done t \<Longrightarrow> \<exists>r. t = Done r"
  by (cases t; simp)+

lemma can_step_iff: "can_step s \<longleftrightarrow> (\<exists>s'. step loads stream s s')"
proof
  assume c: "can_step s"
  then have n: "raised s = None" by (simp add: can_step_def)
  from c consider (w) "0 < sem s" "filter is_waiting (tasks s) \<noteq> []"
    | (r) "filter is_running (tasks s) \<noteq> []" | (d) "filter is_done (tasks s) \<noteq> []"
    by (auto simp: can_step_def)
  then show "\<exists>s'. step loads stream s s'"
  proof cases
    case w
    then obtain xs ys p where "tasks s = xs @ Waiting p # ys"
      by (metis find_task task_shapes(1))
    with w(1) n show ?thesis by (blast intro: step.acquire)
  next
    case r
    then obtain xs ys p where "tasks s = xs @ Running p # ys"
      by (metis find_task task_shapes(2))
    with n show ?thesis by (blast intro: step.finish)
  next
    case d
    then obtain xs ys r where t: "tasks s = xs @ Done r # ys"
      by (metis find_task task_shapes(3))
    show ?thesis
    proof (cases "progress_line r")
      case None
      with t n show ?thesis by (blast intro: step.collect)
    next
      case (Some e)
      with t n show ?thesis by (blast intro: step.abort)
    qed
  qed
next
  assume "\<exists>s'. step loads stream s s'"
  then obtain s' where "step loads stream s s'" by blast
  then show "can_step s" by cases (auto simp: can_step_def)
qed




text \<open>
  A result that the line of progress cannot format ends the batch: of two prompts under a
  cap of 1, the first is answered with \<^verbatim>\<open>"completion_tokens": null\<close>; its result is
  appended, line 267 raises, and the second request is never sent.
\<close>

lemma null_usage_result:
  "send_request sample_loads seconds (Response null_usage) ''q'' False =
     \<lparr>prompt = ''q'', status = ''ok'', ttft_ms = 0, total_time_s = 1, prompt_tokens = JInt 0,
      completion_tokens = JNull, tokens_per_sec = 0, error = ''''\<rparr>"
  by code_simp

lemma progress_line_aborts:
  "rtranclp (step sample_loads False)
     \<lparr>sem = 1, tasks = [Waiting ''q'', Waiting ''q''], results = [], raised = None\<rparr>
     \<lparr>sem = 1, tasks = [Collected, Waiting ''q''],
      results = [send_request sample_loads seconds (Response null_usage) ''q'' False],
      raised = Some (TypeError ''unsupported format string passed to NoneType.__format__'')\<rparr> \<and>
   \<not> can_step
     \<lparr>sem = 1, tasks = [Collected, Waiting ''q''],
      results = [send_request sample_loads seconds (Response null_usage) ''q'' False],
      raised = Some (TypeError ''unsupported format string passed to NoneType.__format__'')\<rparr>"
proof -
  let ?r = "send_request sample_loads seconds (Response null_usage) ''q'' False"
  let ?e = "TypeError ''unsupported format string passed to NoneType.__format__''"
  let ?s0 = "\<lparr>sem = 1, tasks = [Waiting ''q'', Waiting ''q''], results = [], raised = None\<rparr>"
  let ?s1 = "\<lparr>sem = 0, tasks = [Running ''q'', Waiting ''q''], results = [], raised = None\<rparr>"
  let ?s2 = "\<lparr>sem = 1, tasks = [Done ?r, Waiting ''q''], results = [], raised = None\<rparr>"
  let ?s3 = "\<lparr>sem = 1, tasks = [Collected, Waiting ''q''], results = [?r], raised = Some ?e\<rparr>"
  have pl: "progress_line ?r = Some ?e"
    by (simp add: null_usage_result progress_line_def)
  have "step sample_loads False ?s0 ?s1"
    using step.acquire[of ?s0 "[]" "''q''" "[Waiting ''q'']" sample_loads False] by simp
  moreover have "step sample_loads False ?s1 ?s2"
    using step.finish[of ?s1 "[]" "''q''" "[Waiting ''q'']" ?r sample_loads seconds _ False] by simp
  moreover have "step sample_loads False ?s2 ?s3"
    using step.abort[of ?s2 "[]" ?r "[Waiting ''q'']" ?e sample_loads False] pl by simp
  ultimately have run: "rtranclp (step sample_loads False) ?s0 ?s3"
    by (meson rtranclp.rtrancl_into_rtrancl rtranclp.rtrancl_refl)
  have ns: "\<not> can_step ?s3" by (simp add: can_step_def)
  from run ns show ?thesis by blast
qed

end
